theory Spec2Isabelle
  imports Complex_Main
begin

section \<open>Data model\<close>

text \<open>
  The module \<^verbatim>\<open>rnn_base.py\<close> defines two classes, \<^verbatim>\<open>GruEncoder\<close> and
  \<^verbatim>\<open>GruDecoder\<close>. A tensor is the nested list of its entries: a tensor of shape
  \<open>(a, b, c)\<close> is a list of \<open>a\<close> lists of \<open>b\<close> lists of \<open>c\<close> numbers. Floating-point
  entries are read as real numbers; the theorems below use only addition, zero, the order
  and the positions of the entries. Token ids are Python integers.

  What the library raises is a value of \<open>error\<close>: an index out of range is an
  \<open>IndexError\<close>, a shape that a library call refuses is a \<open>RuntimeError\<close>.
\<close>

datatype error = IndexError | RuntimeError

text \<open>
  \<^verbatim>\<open>util.tokens\<close> is imported by the module and supplies the two reserved ids. They are
  ids of the vocabulary index space, hence naturals, and are passed explicitly.
\<close>

record tokens =
  PAD_TOKEN_ID :: nat
  SOS_TOKEN_ID :: nat

text \<open>
  The numerical kernel of \<^verbatim>\<open>nn.GRU\<close> is a parameter of a module. It reads the dropout
  noise of the call (present in training mode only), the batch of input sequences and the
  initial hidden state (absent when the caller passes none), and gives single entries of
  the results: \<open>rnn_output\<close> the entry of the last layer's output at direction, batch
  index, time and feature; \<open>rnn_final\<close> the entry of the final hidden state at layer,
  direction, batch index and feature. The wrappers below lay these entries out in the shapes
  the library documents, so every result has its documented shape whatever the kernel is.
\<close>

type_synonym 'r gru_kernel =
  "'r option \<Rightarrow> real list list list \<Rightarrow> real list list list option
     \<Rightarrow> nat \<Rightarrow> nat \<Rightarrow> nat \<Rightarrow> nat \<Rightarrow> real"

text \<open>The attributes both classes assign in \<^verbatim>\<open>__init__\<close>, with the module's mode flag
  and the weight of \<^verbatim>\<open>embedding_lookup\<close> together with its \<^verbatim>\<open>requires_grad\<close> flag.\<close>

record 'r GruModule =
  vocab_size :: nat
  embedding_dim :: nat
  hidden_size :: nat
  num_layers :: nat
  dropout_prob :: real
  device :: string
  training :: bool
  embedding_weight :: "real list list"
  embedding_requires_grad :: bool
  rnn_output :: "'r gru_kernel"
  rnn_final :: "'r gru_kernel"

record 'r GruEncoder = "'r GruModule" +
  bidirectional :: bool

text \<open>
  The decoder adds the projection \<^verbatim>\<open>linear_transform\<close> and the attribute
  \<^verbatim>\<open>decoder_output_func\<close>, which holds a function or nothing. Both are given by their
  kernels, like the recurrent stack: \<open>linear_feature v j\<close> is feature \<open>j\<close> of the
  projection of the vector \<open>v\<close>, and the stored function \<open>f\<close> gives entry \<open>j\<close> of the
  normalised row \<open>xs\<close> as \<open>f xs j\<close>.

  The greedy search calls the library's \<^verbatim>\<open>topk(1)\<close>. Which index the library returns for
  a row with several largest entries is its own choice, and not the first one in general.
  The choice is carried with the decoder as a further kernel: \<open>topk_index row\<close> is the index
  the library returns for the row \<open>row\<close>.
\<close>

record 'r GruDecoder = "'r GruModule" +
  max_seq_len :: nat
  beam_size :: int
  linear_feature :: "real list \<Rightarrow> nat \<Rightarrow> real"
  decoder_output_func :: "(real list \<Rightarrow> nat \<Rightarrow> real) option"
  topk_index :: "real list \<Rightarrow> nat"

section \<open>Library operations\<close>

text \<open>\<^verbatim>\<open>nn.Embedding\<close>: each id selects its row of the weight; an id outside
  \<open>[0, rows)\<close> raises.\<close>

definition embedding_lookup ::
  "('r, 'z) GruModule_scheme \<Rightarrow> int list list \<Rightarrow> error + real list list list" where
  "embedding_lookup m x =
     (if \<forall>row \<in> set x. \<forall>i \<in> set row. 0 \<le> i \<and> i < int (length (embedding_weight m))
      then Inr (map (map (\<lambda>i. embedding_weight m ! nat i)) x)
      else Inl IndexError)"

text \<open>\<^verbatim>\<open>nn.functional.log_softmax\<close>, the function \<^verbatim>\<open>__init__\<close> stores in
  \<^verbatim>\<open>decoder_output_func\<close>, over the reals: entry \<open>j\<close> of the result on the row
  \<open>xs\<close>.\<close>

definition log_softmax :: "real list \<Rightarrow> nat \<Rightarrow> real" where
  "log_softmax xs j = xs ! j - ln (\<Sum>y\<leftarrow>xs. exp y)"

text \<open>A function applied along the last axis (\<^verbatim>\<open>dim=-1\<close>) of a two-dimensional
  tensor: every row keeps its length.\<close>

definition apply_last_axis :: "(real list \<Rightarrow> nat \<Rightarrow> real) \<Rightarrow> real list list \<Rightarrow> real list list" where
  "apply_last_axis f outputs = map (\<lambda>row. map (f row) [0..<length row]) outputs"

text \<open>\<^verbatim>\<open>nn.Linear(hidden_size, vocab_size)\<close> applied to a \<open>(batch, hidden_size)\<close>
  tensor: \<open>vocab_size\<close> features for every row.\<close>

definition linear_transform :: "'r GruDecoder \<Rightarrow> real list list \<Rightarrow> real list list" where
  "linear_transform d outputs =
     map (\<lambda>v. map (linear_feature d v) [0..<vocab_size d]) outputs"

text \<open>
  The decoder's \<^verbatim>\<open>self.rnn(embedding, prev_hidden_state)\<close>: a unidirectional,
  batch-first GRU. The library refuses an input whose feature size is not
  \<open>embedding_dim\<close> and a hidden state whose shape is not
  \<open>(num_layers, batch, hidden_size)\<close>. Dropout noise reaches the kernel in training mode
  only.
\<close>

definition decoder_rnn ::
  "'r GruDecoder \<Rightarrow> 'r \<Rightarrow> real list list list \<Rightarrow> real list list list
     \<Rightarrow> error + (real list list list \<times> real list list list)" where
  "decoder_rnn d r embedding h0 =
     (let B = length embedding;
          nz = (if training d then Some r else None)
      in if (\<forall>s \<in> set embedding. \<forall>v \<in> set s. length v = embedding_dim d)
            \<and> length h0 = num_layers d
            \<and> (\<forall>l \<in> set h0. length l = B \<and> (\<forall>v \<in> set l. length v = hidden_size d))
         then Inr
           (map (\<lambda>b. map (\<lambda>t. map (\<lambda>j. rnn_output d nz embedding (Some h0) 0 b t j)
                                  [0..<hidden_size d])
                          [0..<length (embedding ! b)])
                [0..<B],
            map (\<lambda>l. map (\<lambda>b. map (\<lambda>j. rnn_final d nz embedding (Some h0) l 0 b j)
                                  [0..<hidden_size d])
                          [0..<B])
                [0..<num_layers d])
         else Inl RuntimeError)"

text \<open>\<^verbatim>\<open>topk(1)\<close> along the last axis gives, for every row, the index the library
  chooses for it, as a tensor with a last axis of size one; it raises on a row without
  entries.\<close>

definition topk1 :: "'r GruDecoder \<Rightarrow> real list list \<Rightarrow> error + int list list" where
  "topk1 d out =
     (if \<forall>row \<in> set out. row \<noteq> [] then Inr (map (\<lambda>row. [int (topk_index d row)]) out)
      else Inl RuntimeError)"

text \<open>\<^verbatim>\<open>squeeze(-1)\<close> of a \<open>(batch, 1)\<close> tensor and \<^verbatim>\<open>unsqueeze(-1)\<close> of a
  \<open>(batch)\<close> tensor.\<close>

definition squeeze_last :: "'a list list \<Rightarrow> 'a list" where
  "squeeze_last xs = map hd xs"

definition unsqueeze_last :: "'a list \<Rightarrow> 'a list list" where
  "unsqueeze_last xs = map (\<lambda>x. [x]) xs"

text \<open>\<^verbatim>\<open>tgt_seqs[:, t]\<close>: column \<open>t\<close> of a two-dimensional tensor.\<close>

definition select_column :: "'a list list \<Rightarrow> nat \<Rightarrow> error + 'a list" where
  "select_column rows t =
     (if \<forall>row \<in> set rows. t < length row then Inr (map (\<lambda>row. row ! t) rows)
      else Inl IndexError)"

text \<open>\<^verbatim>\<open>transpose(0, 1)\<close> of a tensor whose second axis has length \<open>B\<close>.\<close>

definition transpose01 :: "nat \<Rightarrow> 'a list list \<Rightarrow> 'a list list" where
  "transpose01 B ls = map (\<lambda>b. map (\<lambda>l. l ! b) ls) [0..<B]"

section \<open>GruDecoder\<close>

text \<open>
  \<^verbatim>\<open>GruDecoder.step\<close>. Its input ids have shape \<open>(batch, 1)\<close>, so the recurrent
  output has shape \<open>(batch, 1, hidden_size)\<close> and
  \<^verbatim>\<open>outputs.transpose(0, 1).squeeze(0)\<close> keeps the one time step of every sequence.
\<close>

definition step ::
  "'r GruDecoder \<Rightarrow> 'r \<Rightarrow> nat \<Rightarrow> int list list \<Rightarrow> real list list list
     \<Rightarrow> error + (real list list \<times> real list list list)" where
  "step d r t inputs prev_hidden_state =
     (case embedding_lookup d inputs of
        Inl e \<Rightarrow> Inl e
      | Inr embedding \<Rightarrow>
          (case decoder_rnn d r embedding prev_hidden_state of
             Inl e \<Rightarrow> Inl e
           | Inr (outputs, hidden_state) \<Rightarrow>
               let outputs = linear_transform d (map hd outputs);
                   outputs = (case decoder_output_func d of
                                None \<Rightarrow> outputs
                              | Some f \<Rightarrow> apply_last_axis f outputs)
               in Inr (outputs, hidden_state)))"

text \<open>The variables of the loop of \<^verbatim>\<open>GruDecoder.forward\<close>; \<open>logits\<close> is kept in
  the \<open>(time, batch, vocab)\<close> order in which the loop fills it.\<close>

record loop_state =
  decoder_input :: "int list list"
  prev_hidden_state :: "real list list list"
  logits :: "real list list list"
  predictions :: "int list list"

text \<open>One iteration of the loop, at time \<open>t\<close>; \<open>noise t\<close> is the dropout noise drawn
  by the recurrent stack in that iteration.\<close>

definition forward_body ::
  "'r GruDecoder \<Rightarrow> (nat \<Rightarrow> 'r) \<Rightarrow> int list list \<Rightarrow> nat \<Rightarrow> loop_state
     \<Rightarrow> error + loop_state" where
  "forward_body d noise tgt_seqs t st =
     (case step d (noise t) t (decoder_input st) (prev_hidden_state st) of
        Inl e \<Rightarrow> Inl e
      | Inr (decoder_output, hidden_state) \<Rightarrow>
          let st = st\<lparr>logits := (logits st)[t := decoder_output]\<rparr>
          in if training d then
               (case select_column tgt_seqs t of
                  Inl e \<Rightarrow> Inl e
                | Inr next_input \<Rightarrow>
                    Inr (st\<lparr>decoder_input := unsqueeze_last next_input,
                            prev_hidden_state := hidden_state\<rparr>))
             else
               (case topk1 d decoder_output of
                  Inl e \<Rightarrow> Inl e
                | Inr top_index \<Rightarrow>
                    let next_input = squeeze_last top_index
                    in Inr (st\<lparr>predictions := predictions st @ [next_input],
                               decoder_input := unsqueeze_last next_input,
                               prev_hidden_state := hidden_state\<rparr>)))"

text \<open>\<open>forward_loop d noise tgt_seqs t n st\<close> runs the \<open>n\<close> iterations
  \<open>t, t + 1, \<dots>, t + n - 1\<close> from the state \<open>st\<close>.\<close>

fun forward_loop ::
  "'r GruDecoder \<Rightarrow> (nat \<Rightarrow> 'r) \<Rightarrow> int list list \<Rightarrow> nat \<Rightarrow> nat \<Rightarrow> loop_state
     \<Rightarrow> error + loop_state" where
  "forward_loop d noise tgt_seqs t 0 st = Inr st"
| "forward_loop d noise tgt_seqs t (Suc n) st =
     (case forward_body d noise tgt_seqs t st of
        Inl e \<Rightarrow> Inl e
      | Inr st' \<Rightarrow> forward_loop d noise tgt_seqs (Suc t) n st')"

text \<open>The state before the first iteration.\<close>

definition initial_state ::
  "tokens \<Rightarrow> 'r GruDecoder \<Rightarrow> real list list list \<Rightarrow> real list list list
     \<Rightarrow> loop_state" where
  "initial_state tk d encoder_output encoder_hidden_state =
     (let batch_size = length encoder_output;
          initial_input = unsqueeze_last (replicate batch_size (int (SOS_TOKEN_ID tk)))
      in \<lparr>decoder_input = initial_input,
          prev_hidden_state = encoder_hidden_state,
          logits = replicate (max_seq_len d)
                     (replicate batch_size (replicate (vocab_size d) 0)),
          predictions = []\<rparr>)"

text \<open>\<^verbatim>\<open>GruDecoder.forward\<close>. \<^verbatim>\<open>tgt_seq_lengths\<close> is accepted and never read.\<close>

definition decoder_forward ::
  "tokens \<Rightarrow> 'r GruDecoder \<Rightarrow> (nat \<Rightarrow> 'r) \<Rightarrow> real list list list
     \<Rightarrow> real list list list \<Rightarrow> int list list \<Rightarrow> nat list
     \<Rightarrow> error + (real list list list \<times> int list list)" where
  "decoder_forward tk d noise encoder_output encoder_hidden_state tgt_seqs tgt_seq_lengths =
     (case forward_loop d noise tgt_seqs 0 (max_seq_len d)
             (initial_state tk d encoder_output encoder_hidden_state) of
        Inl e \<Rightarrow> Inl e
      | Inr st \<Rightarrow> Inr (transpose01 (length encoder_output) (logits st), predictions st))"

text \<open>The state at the start of iteration \<open>t\<close>: its \<open>decoder_input\<close> and
  \<open>prev_hidden_state\<close> are what \<^verbatim>\<open>step\<close> consumes at time \<open>t\<close>.\<close>

definition state_at ::
  "tokens \<Rightarrow> 'r GruDecoder \<Rightarrow> (nat \<Rightarrow> 'r) \<Rightarrow> real list list list
     \<Rightarrow> real list list list \<Rightarrow> int list list \<Rightarrow> nat \<Rightarrow> error + loop_state" where
  "state_at tk d noise encoder_output encoder_hidden_state tgt_seqs t =
     forward_loop d noise tgt_seqs 0 t
       (initial_state tk d encoder_output encoder_hidden_state)"

section \<open>GruEncoder\<close>

text \<open>
  \<^verbatim>\<open>pack_padded_sequence(embedding, seq_lengths, batch_first=True)\<close>. The packed
  sequence is the list of the sequences, each cut to its true length. The library refuses
  an empty batch, a list of lengths that does not have one length for every sequence, a
  length that is zero and lengths that are not sorted in descending order; a length beyond
  the padded width is refused here as well.
\<close>

definition pack_padded_sequence ::
  "real list list list \<Rightarrow> nat list \<Rightarrow> error + real list list list" where
  "pack_padded_sequence embedding seq_lengths =
     (if embedding \<noteq> [] \<and> list_all2 (\<lambda>s l. 0 < l \<and> l \<le> length s) embedding seq_lengths
         \<and> sorted (rev seq_lengths)
      then Inr (map (\<lambda>(s, l). take l s) (zip embedding seq_lengths))
      else Inl RuntimeError)"

text \<open>
  The encoder's \<^verbatim>\<open>self.rnn(packed_input)\<close>, called without an initial hidden state.
  With \<open>D\<close> directions the output has \<open>D * hidden_size\<close> features at every position
  within a sequence's length, direction 0 (forward) first; the final hidden state has
  \<open>D * num_layers\<close> entries, and entry \<open>k\<close> belongs to layer \<open>k div D\<close> and direction
  \<open>k mod D\<close>, as in the library's \<^verbatim>\<open>h_n.view(num_layers, num_directions, batch,
  hidden_size)\<close>.
\<close>

definition num_directions :: "'r GruEncoder \<Rightarrow> nat" where
  "num_directions e = (if bidirectional e then 2 else 1)"

definition encoder_rnn ::
  "'r GruEncoder \<Rightarrow> 'r \<Rightarrow> real list list list
     \<Rightarrow> error + (real list list list \<times> real list list list)" where
  "encoder_rnn e r packed_input =
     (let B = length packed_input;
          D = num_directions e;
          nz = (if training e then Some r else None)
      in if \<forall>s \<in> set packed_input. \<forall>v \<in> set s. length v = embedding_dim e
         then Inr
           (map (\<lambda>b. map (\<lambda>t. concat (map (\<lambda>dir.
                                    map (\<lambda>j. rnn_output e nz packed_input None dir b t j)
                                        [0..<hidden_size e])
                                  [0..<D]))
                          [0..<length (packed_input ! b)])
                [0..<B],
            map (\<lambda>k. map (\<lambda>b. map (\<lambda>j. rnn_final e nz packed_input None (k div D) (k mod D) b j)
                                  [0..<hidden_size e])
                          [0..<B])
                [0..<D * num_layers e])
         else Inl RuntimeError)"

text \<open>
  \<^verbatim>\<open>pad_packed_sequence(output, batch_first=True, padding_value=v)\<close>: every sequence is
  extended to the length of the longest one, the new positions filled with \<open>v\<close>.
\<close>

definition pad_packed_sequence :: "real list list list \<Rightarrow> real \<Rightarrow> real list list list" where
  "pad_packed_sequence packed padding_value =
     (let T = fold max (map length packed) 0;
          F = length (hd (hd packed))
      in map (\<lambda>s. s @ replicate (T - length s) (replicate F padding_value)) packed)"

text \<open>\<^verbatim>\<open>GruEncoder.forward\<close> up to and including \<^verbatim>\<open>pad_packed_sequence\<close>: the
  output and the hidden state before the directions are merged.\<close>

definition encoder_unmerged ::
  "tokens \<Rightarrow> 'r GruEncoder \<Rightarrow> 'r \<Rightarrow> int list list \<Rightarrow> nat list
     \<Rightarrow> error + (real list list list \<times> real list list list)" where
  "encoder_unmerged tk e r x seq_lengths =
     (case embedding_lookup e x of
        Inl err \<Rightarrow> Inl err
      | Inr embedding \<Rightarrow>
          (case pack_padded_sequence embedding seq_lengths of
             Inl err \<Rightarrow> Inl err
           | Inr packed_input \<Rightarrow>
               (case encoder_rnn e r packed_input of
                  Inl err \<Rightarrow> Inl err
                | Inr (output, hidden_state) \<Rightarrow>
                    Inr (pad_packed_sequence output (real (PAD_TOKEN_ID tk)), hidden_state))))"

text \<open>\<^verbatim>\<open>GruEncoder.forward\<close>: the slices \<^verbatim>\<open>output[:, :, :hidden_size]\<close> and
  \<^verbatim>\<open>output[:, :, hidden_size:]\<close> are added entry by entry, and so are
  \<^verbatim>\<open>hidden_state[:num_layers]\<close> and \<^verbatim>\<open>hidden_state[num_layers:]\<close>.\<close>

definition encoder_forward ::
  "tokens \<Rightarrow> 'r GruEncoder \<Rightarrow> 'r \<Rightarrow> int list list \<Rightarrow> nat list
     \<Rightarrow> error + (real list list list \<times> real list list list)" where
  "encoder_forward tk e r x seq_lengths =
     (case encoder_unmerged tk e r x seq_lengths of
        Inl err \<Rightarrow> Inl err
      | Inr (output, hidden_state) \<Rightarrow>
          if bidirectional e then
            Inr (map (map (\<lambda>v. map2 (+) (take (hidden_size e) v) (drop (hidden_size e) v)))
                   output,
                 map2 (map2 (map2 (+))) (take (num_layers e) hidden_state)
                   (drop (num_layers e) hidden_state))
          else Inr (output, hidden_state))"

section \<open>Pretrained embeddings\<close>

text \<open>\<^verbatim>\<open>init_embedding_weight\<close>, the same method in both classes: the weight is replaced
  by a new parameter that does not require a gradient.\<close>

definition init_embedding_weight ::
  "('r, 'z) GruModule_scheme \<Rightarrow> real list list \<Rightarrow> ('r, 'z) GruModule_scheme" where
  "init_embedding_weight m weight =
     m\<lparr>embedding_weight := weight, embedding_requires_grad := False\<rparr>"

section \<open>Well-shaped arguments\<close>

text \<open>A hidden state of shape \<open>(num_layers, B, hidden_size)\<close>.\<close>

definition hidden_shape :: "'r GruDecoder \<Rightarrow> nat \<Rightarrow> real list list list \<Rightarrow> bool" where
  "hidden_shape d B h \<longleftrightarrow>
     length h = num_layers d
     \<and> (\<forall>l \<in> set h. length l = B \<and> (\<forall>v \<in> set l. length v = hidden_size d))"

text \<open>Token ids that index a row of the embedding weight.\<close>

definition ids_in_range :: "('r, 'z) GruModule_scheme \<Rightarrow> int list list \<Rightarrow> bool" where
  "ids_in_range m x \<longleftrightarrow>
     (\<forall>row \<in> set x. \<forall>i \<in> set row. 0 \<le> i \<and> i < int (length (embedding_weight m)))"

text \<open>An embedding weight of shape \<open>(vocab_size, embedding_dim)\<close>, as \<^verbatim>\<open>__init__\<close>
  builds it.\<close>

definition weight_shape :: "('r, 'z) GruModule_scheme \<Rightarrow> bool" where
  "weight_shape m \<longleftrightarrow>
     length (embedding_weight m) = vocab_size m
     \<and> (\<forall>row \<in> set (embedding_weight m). length row = embedding_dim m)"

text \<open>Logits in the \<open>(time, batch, vocab)\<close> order: every time step holds \<open>B\<close> rows of
  \<open>V\<close> entries.\<close>

definition logits_shape :: "nat \<Rightarrow> nat \<Rightarrow> real list list list \<Rightarrow> bool" where
  "logits_shape B V lg \<longleftrightarrow> (\<forall>m \<in> set lg. length m = B \<and> (\<forall>row \<in> set m. length row = V))"

text \<open>A loop state whose next \<^verbatim>\<open>step\<close> is accepted by the embedding and by the
  recurrent stack, for a batch of \<open>B\<close> sequences.\<close>

definition state_ok :: "'r GruDecoder \<Rightarrow> nat \<Rightarrow> loop_state \<Rightarrow> bool" where
  "state_ok d B st \<longleftrightarrow>
     length (decoder_input st) = B \<and> ids_in_range d (decoder_input st)
     \<and> hidden_shape d B (prev_hidden_state st)
     \<and> logits_shape B (vocab_size d) (logits st)"

text \<open>Arguments of \<^verbatim>\<open>GruDecoder.forward\<close> that the first \<^verbatim>\<open>step\<close> accepts: a
  well-shaped embedding weight, a start-of-sequence id within the vocabulary and an encoder
  hidden state of shape \<open>(num_layers, batch, hidden_size)\<close>.\<close>

definition decoder_args_ok ::
  "tokens \<Rightarrow> 'r GruDecoder \<Rightarrow> real list list list \<Rightarrow> real list list list \<Rightarrow> bool" where
  "decoder_args_ok tk d encoder_output encoder_hidden_state \<longleftrightarrow>
     weight_shape d \<and> SOS_TOKEN_ID tk < vocab_size d
     \<and> hidden_shape d (length encoder_output) encoder_hidden_state"

text \<open>What the library promises of \<^verbatim>\<open>topk(1)\<close>: on a row that is not empty the index
  returned lies within the row, and no entry of the row is larger than the entry at that
  index. Nothing is said about which of several largest entries is chosen.\<close>

definition topk_ok :: "'r GruDecoder \<Rightarrow> bool" where
  "topk_ok d \<longleftrightarrow>
     (\<forall>row. row \<noteq> [] \<longrightarrow>
        topk_index d row < length row \<and> (\<forall>j < length row. row ! j \<le> row ! topk_index d row))"

text \<open>A three-dimensional tensor of shape \<open>(n1, n2, n3)\<close>.\<close>

definition tensor_shape :: "nat \<Rightarrow> nat \<Rightarrow> nat \<Rightarrow> real list list list \<Rightarrow> bool" where
  "tensor_shape n1 n2 n3 xs \<longleftrightarrow>
     length xs = n1 \<and> (\<forall>s \<in> set xs. length s = n2 \<and> (\<forall>v \<in> set s. length v = n3))"

text \<open>Arguments of \<^verbatim>\<open>GruEncoder.forward\<close> that the embedding and the packing accept: a
  well-shaped embedding weight, ids within the vocabulary, a batch that is not empty, one
  true length for every row, positive and within the row, and the lengths in descending
  order.\<close>

definition encoder_args_ok :: "'r GruEncoder \<Rightarrow> int list list \<Rightarrow> nat list \<Rightarrow> bool" where
  "encoder_args_ok e x seq_lengths \<longleftrightarrow>
     weight_shape e \<and> ids_in_range e x \<and> x \<noteq> []
     \<and> list_all2 (\<lambda>row l. 0 < l \<and> l \<le> length row) x seq_lengths
     \<and> sorted (rev seq_lengths)"

section \<open>Example instances\<close>

text \<open>Small instances on which the theorems below are exercised. The kernels of the
  examples add the dropout noise they are given, so a result that does not depend on the
  noise does so because the noise never reached the kernel.\<close>

text \<open>One choice \<^verbatim>\<open>topk(1)\<close> may make, the first of the largest entries; the example
  decoders use it.\<close>

fun first_largest :: "real list \<Rightarrow> nat" where
  "first_largest [] = 0"
| "first_largest [x] = 0"
| "first_largest (x # y # ys) =
     (let i = first_largest (y # ys) in if (y # ys) ! i \<le> x then 0 else Suc i)"

definition ex_tokens :: tokens where
  "ex_tokens = \<lparr>PAD_TOKEN_ID = 0, SOS_TOKEN_ID = 1\<rparr>"

definition ex_decoder :: "bool \<Rightarrow> nat GruDecoder" where
  "ex_decoder tr =
     \<lparr>vocab_size = 3, embedding_dim = 2, hidden_size = 2, num_layers = 1,
      dropout_prob = 0, device = ''cpu'', training = tr,
      embedding_weight = [[0, 0], [1, 2], [3, 4]],
      embedding_requires_grad = True,
      rnn_output = (\<lambda>nz emb h0 dir b t j.
         hd (hd (emb ! b)) + real j + (case nz of None \<Rightarrow> 0 | Some r \<Rightarrow> real r)),
      rnn_final = (\<lambda>nz emb h0 l dir b j.
         real b + real j + (case nz of None \<Rightarrow> 0 | Some r \<Rightarrow> real r)),
      max_seq_len = 2, beam_size = 1,
      linear_feature = (\<lambda>v j. if j = 2 then hd v else real j),
      decoder_output_func = Some (\<lambda>xs j. xs ! j - sum_list xs),
      topk_index = first_largest\<rparr>"

text \<open>The example decoder with the output function \<^verbatim>\<open>__init__\<close> stores,
  \<^verbatim>\<open>nn.functional.log_softmax\<close>.\<close>

definition ex_log_softmax_decoder :: "bool \<Rightarrow> nat GruDecoder" where
  "ex_log_softmax_decoder tr = (ex_decoder tr)\<lparr>decoder_output_func := Some log_softmax\<rparr>"

definition ex_encoder :: "nat \<Rightarrow> nat GruEncoder" where
  "ex_encoder L =
     \<lparr>vocab_size = 3, embedding_dim = 2, hidden_size = 2, num_layers = L,
      dropout_prob = 0, device = ''cpu'', training = False,
      embedding_weight = [[0, 0], [1, 2], [3, 4]],
      embedding_requires_grad = True,
      rnn_output = (\<lambda>nz emb h0 dir b t j. real (100 * dir + 10 * t + j + 1)),
      rnn_final = (\<lambda>nz emb h0 l dir b j. real (100 * l + 10 * dir + j + 1)),
      bidirectional = True\<rparr>"

section \<open>The decoder loop\<close>

lemma forward_loop_add:
  "forward_loop d noise tgt t (n + m) st =
     (case forward_loop d noise tgt t n st of
        Inl e \<Rightarrow> Inl e
      | Inr st' \<Rightarrow> forward_loop d noise tgt (t + n) m st')"
  by (induction n arbitrary: t st) (auto split: sum.splits)

lemma forward_loop_snoc:
  "forward_loop d noise tgt t (Suc n) st =
     (case forward_loop d noise tgt t n st of
        Inl e \<Rightarrow> Inl e
      | Inr st' \<Rightarrow> forward_body d noise tgt (t + n) st')"
  using forward_loop_add [of d noise tgt t n 1 st]
  by (auto split: sum.splits)

lemma forward_loop_prefix:
  assumes "forward_loop d noise tgt t n st = Inr st'" and "k \<le> n"
  shows "\<exists>st''. forward_loop d noise tgt t k st = Inr st''"
proof -
  from assms(2) have "n = k + (n - k)" by simp
  with assms(1) forward_loop_add [of d noise tgt t k "n - k" st]
  show ?thesis by (auto split: sum.splits)
qed

lemma embedding_lookup_Inr:
  "embedding_lookup m x = Inr emb \<longleftrightarrow>
     ids_in_range m x \<and> emb = map (map (\<lambda>i. embedding_weight m ! nat i)) x"
  by (auto simp: embedding_lookup_def ids_in_range_def)

lemma embedding_rows:
  assumes "weight_shape m" "ids_in_range m x"
  shows "\<forall>s \<in> set (map (map (\<lambda>i. embedding_weight m ! nat i)) x).
           \<forall>v \<in> set s. length v = embedding_dim m"
proof (intro ballI)
  fix s v
  assume "s \<in> set (map (map (\<lambda>i. embedding_weight m ! nat i)) x)" "v \<in> set s"
  then obtain row i where "row \<in> set x" "i \<in> set row" "v = embedding_weight m ! nat i"
    by auto
  with assms(2) have "0 \<le> i \<and> i < int (length (embedding_weight m))"
    unfolding ids_in_range_def by blast
  then have "nat i < length (embedding_weight m)" by linarith
  with assms(1) \<open>v = _\<close> show "length v = embedding_dim m"
    by (auto simp: weight_shape_def)
qed

lemma decoder_rnn_Inr:
  "decoder_rnn d r emb h = Inr (outputs, h') \<Longrightarrow>
     hidden_shape d (length emb) h \<and> hidden_shape d (length emb) h' \<and>
     length outputs = length emb \<and>
     (\<forall>b < length emb. length (outputs ! b) = length (emb ! b))"
  by (auto simp: decoder_rnn_def hidden_shape_def Let_def split: if_splits)

lemma decoder_rnn_total:
  assumes "\<forall>s \<in> set emb. \<forall>v \<in> set s. length v = embedding_dim d"
    and "hidden_shape d (length emb) h"
  shows "\<exists>outputs h'. decoder_rnn d r emb h = Inr (outputs, h')"
  using assms by (auto simp: decoder_rnn_def hidden_shape_def Let_def)

lemma step_shape:
  assumes "step d r t inputs h = Inr (out, h')"
  shows "length out = length inputs \<and> (\<forall>row \<in> set out. length row = vocab_size d) \<and>
         hidden_shape d (length inputs) h \<and> hidden_shape d (length inputs) h' \<and>
         ids_in_range d inputs"
  using assms
  by (auto simp: step_def embedding_lookup_Inr linear_transform_def apply_last_axis_def Let_def
      dest!: decoder_rnn_Inr split: sum.splits option.splits)

lemma step_total:
  assumes "weight_shape d" "ids_in_range d inputs" "hidden_shape d (length inputs) h"
  shows "\<exists>out h'. step d r t inputs h = Inr (out, h')"
proof -
  let ?emb = "map (map (\<lambda>i. embedding_weight d ! nat i)) inputs"
  have e: "embedding_lookup d inputs = Inr ?emb"
    using assms(2) by (simp add: embedding_lookup_Inr)
  have "\<exists>outputs h'. decoder_rnn d r ?emb h = Inr (outputs, h')"
    using embedding_rows [OF assms(1,2)] assms(3) by (intro decoder_rnn_total) auto
  then show ?thesis
    using e by (auto simp: step_def Let_def)
qed

subsection \<open>One iteration and the whole loop\<close>

lemma forward_body_Inr:
  assumes "forward_body d noise tgt t st = Inr st'"
  shows "\<exists>out h'. step d (noise t) t (decoder_input st) (prev_hidden_state st) = Inr (out, h')
           \<and> logits st' = (logits st)[t := out]
           \<and> prev_hidden_state st' = h'
           \<and> (training d \<longrightarrow>
                 (\<forall>row \<in> set tgt. t < length row)
                 \<and> decoder_input st' = unsqueeze_last (map (\<lambda>row. row ! t) tgt)
                 \<and> predictions st' = predictions st)
           \<and> (\<not> training d \<longrightarrow>
                 (\<forall>row \<in> set out. row \<noteq> [])
                 \<and> decoder_input st' = unsqueeze_last (map (\<lambda>row. int (topk_index d row)) out)
                 \<and> predictions st' = predictions st @ [map (\<lambda>row. int (topk_index d row)) out])"
  using assms
  by (auto simp: forward_body_def Let_def select_column_def topk1_def squeeze_last_def o_def
      split: sum.splits prod.splits if_splits)

lemma forward_body_training:
  assumes "training d" "step d (noise t) t (decoder_input st) (prev_hidden_state st) = Inr (out, h')"
  shows "forward_body d noise tgt t st =
           (if \<forall>row \<in> set tgt. t < length row
            then Inr (st\<lparr>logits := (logits st)[t := out],
                         decoder_input := unsqueeze_last (map (\<lambda>row. row ! t) tgt),
                         prev_hidden_state := h'\<rparr>)
            else Inl IndexError)"
  using assms by (simp add: forward_body_def Let_def select_column_def)

lemma forward_body_inference_Inr:
  assumes "\<not> training d" "step d (noise t) t (decoder_input st) (prev_hidden_state st) = Inr (out, h')"
    "\<forall>row \<in> set out. row \<noteq> []"
  shows "forward_body d noise tgt t st =
           Inr (st\<lparr>logits := (logits st)[t := out],
                   predictions := predictions st @ [map (\<lambda>row. int (topk_index d row)) out],
                   decoder_input := unsqueeze_last (map (\<lambda>row. int (topk_index d row)) out),
                   prev_hidden_state := h'\<rparr>)"
  using assms by (simp add: forward_body_def Let_def topk1_def squeeze_last_def o_def)

lemma first_largest_less: "xs \<noteq> [] \<Longrightarrow> first_largest xs < length xs"
  by (induction xs rule: first_largest.induct) (auto simp: Let_def)

lemma first_largest_max: "j < length xs \<Longrightarrow> xs ! j \<le> xs ! first_largest xs"
proof (induction xs arbitrary: j rule: first_largest.induct)
  case 1
  then show ?case by simp
next
  case (2 x)
  then show ?case by simp
next
  case (3 x y ys)
  show ?case
  proof (cases j)
    case 0
    then show ?thesis by (auto simp: Let_def)
  next
    case (Suc k)
    with "3.prems" have "k < length (y # ys)" by simp
    from "3.IH" [OF this] Suc show ?thesis by (auto simp: Let_def)
  qed
qed

lemma first_largest_topk_ok: "topk_index d = first_largest \<Longrightarrow> topk_ok d"
  by (simp add: topk_ok_def first_largest_less first_largest_max)

lemma topk_okD:
  assumes "topk_ok d" "row \<noteq> []"
  shows "topk_index d row < length row"
    and "j < length row \<Longrightarrow> row ! j \<le> row ! topk_index d row"
  using assms unfolding topk_ok_def by blast+

lemma logits_shape_update:
  assumes "logits_shape B V lg" "length out = B" "\<forall>row \<in> set out. length row = V"
  shows "logits_shape B V (lg[t := out])"
  using assms set_update_subset_insert [of lg t out]
  unfolding logits_shape_def by blast

lemma initial_state_ok:
  assumes "decoder_args_ok tk d eo eh"
  shows "state_ok d (length eo) (initial_state tk d eo eh)"
  using assms
  by (auto simp: state_ok_def initial_state_def decoder_args_ok_def unsqueeze_last_def
      ids_in_range_def weight_shape_def logits_shape_def Let_def)

lemma body_ok_training:
  assumes "training d" "weight_shape d" "state_ok d B st" "length tgt = B"
    "ids_in_range d tgt" "\<forall>row \<in> set tgt. t < length row"
  shows "\<exists>st'. forward_body d noise tgt t st = Inr st' \<and> state_ok d B st'
           \<and> length (logits st') = length (logits st) \<and> predictions st' = predictions st"
proof -
  from assms(2,3) obtain out h'
    where s: "step d (noise t) t (decoder_input st) (prev_hidden_state st) = Inr (out, h')"
    using step_total [of d "decoder_input st" "prev_hidden_state st" "noise t" t]
    by (auto simp: state_ok_def)
  from step_shape [OF s] assms(3)
  have sh: "length out = B" "\<forall>row \<in> set out. length row = vocab_size d" "hidden_shape d B h'"
    by (auto simp: state_ok_def)
  have ids: "ids_in_range d (unsqueeze_last (map (\<lambda>row. row ! t) tgt))"
    using assms(5,6) by (auto simp: ids_in_range_def unsqueeze_last_def)
  show ?thesis
    using forward_body_training [where noise = noise and t = t and tgt = tgt, OF assms(1) s] assms(3,4,6) sh ids
      logits_shape_update [of B "vocab_size d" "logits st" out t]
    by (auto simp: state_ok_def unsqueeze_last_def)
qed

lemma body_ok_inference:
  assumes "\<not> training d" "weight_shape d" "0 < vocab_size d" "state_ok d B st" "topk_ok d"
  shows "\<exists>st'. forward_body d noise tgt t st = Inr st' \<and> state_ok d B st'
           \<and> length (logits st') = length (logits st)
           \<and> length (predictions st') = Suc (length (predictions st))"
proof -
  from assms(2,4) obtain out h'
    where s: "step d (noise t) t (decoder_input st) (prev_hidden_state st) = Inr (out, h')"
    using step_total [of d "decoder_input st" "prev_hidden_state st" "noise t" t]
    by (auto simp: state_ok_def)
  from step_shape [OF s] assms(4)
  have sh: "length out = B" "\<forall>row \<in> set out. length row = vocab_size d" "hidden_shape d B h'"
    by (auto simp: state_ok_def)
  from sh(2) assms(3) have ne: "\<forall>row \<in> set out. row \<noteq> []" by auto
  have ids: "ids_in_range d (unsqueeze_last (map (\<lambda>row. int (topk_index d row)) out))"
    using sh(2) ne assms(2) topk_okD(1) [OF assms(5)]
    by (fastforce simp: ids_in_range_def unsqueeze_last_def weight_shape_def)
  show ?thesis
    using forward_body_inference_Inr [where noise = noise and t = t and tgt = tgt, OF assms(1) s ne] assms(4) sh ids
      logits_shape_update [of B "vocab_size d" "logits st" out t]
    by (auto simp: state_ok_def unsqueeze_last_def)
qed

lemma loop_ok_training:
  assumes "training d" "weight_shape d" "length tgt = B" "ids_in_range d tgt"
  shows "state_ok d B st \<Longrightarrow> \<forall>row \<in> set tgt. t + n \<le> length row \<Longrightarrow>
         \<exists>st'. forward_loop d noise tgt t n st = Inr st' \<and> state_ok d B st'
           \<and> length (logits st') = length (logits st) \<and> predictions st' = predictions st"
proof (induction n arbitrary: t st)
  case 0
  then show ?case by simp
next
  case (Suc n)
  from Suc.prems(2) have "\<forall>row \<in> set tgt. t < length row" by auto
  from body_ok_training [OF assms(1,2) Suc.prems(1) assms(3,4) this, of noise]
  obtain st1 where b: "forward_body d noise tgt t st = Inr st1" "state_ok d B st1"
    "length (logits st1) = length (logits st)" "predictions st1 = predictions st"
    by blast
  from Suc.prems(2) have "\<forall>row \<in> set tgt. Suc t + n \<le> length row" by auto
  from Suc.IH [OF b(2) this] b show ?case by auto
qed

lemma loop_ok_inference:
  assumes "\<not> training d" "weight_shape d" "0 < vocab_size d" "topk_ok d"
  shows "state_ok d B st \<Longrightarrow>
         \<exists>st'. forward_loop d noise tgt t n st = Inr st' \<and> state_ok d B st'
           \<and> length (logits st') = length (logits st)
           \<and> length (predictions st') = length (predictions st) + n"
proof (induction n arbitrary: t st)
  case 0
  then show ?case by simp
next
  case (Suc n)
  from body_ok_inference [OF assms(1,2,3) Suc.prems(1) assms(4), of noise tgt t]
  obtain st1 where b: "forward_body d noise tgt t st = Inr st1" "state_ok d B st1"
    "length (logits st1) = length (logits st)"
    "length (predictions st1) = Suc (length (predictions st))"
    by blast
  from Suc.IH [OF b(2), of "Suc t"] b show ?case by auto
qed

lemma forward_loop_lengths:
  "forward_loop d noise tgt t n st0 = Inr st \<Longrightarrow>
     length (logits st) = length (logits st0)
     \<and> (training d \<longrightarrow> predictions st = predictions st0)
     \<and> (\<not> training d \<longrightarrow> length (predictions st) = length (predictions st0) + n)"
proof (induction n arbitrary: t st0)
  case 0
  then show ?case by simp
next
  case (Suc n)
  then obtain st1 where b: "forward_body d noise tgt t st0 = Inr st1"
    and l: "forward_loop d noise tgt (Suc t) n st1 = Inr st"
    by (auto split: sum.splits)
  from forward_body_Inr [OF b] Suc.IH [OF l] show ?case by auto
qed

lemma forward_loop_Suc_Inr:
  assumes "forward_loop d noise tgt 0 (Suc n) st0 = Inr st"
  obtains st1 where "forward_loop d noise tgt 0 n st0 = Inr st1"
    and "forward_body d noise tgt n st1 = Inr st"
  using assms forward_loop_snoc [of d noise tgt 0 n st0]
  by (auto split: sum.splits)

lemma forward_loop_trace:
  assumes "forward_loop d noise tgt 0 n st0 = Inr st" and "n \<le> length (logits st0)"
    and "t < n"
  shows "\<exists>st1 st2 out h'.
           forward_loop d noise tgt 0 t st0 = Inr st1
         \<and> step d (noise t) t (decoder_input st1) (prev_hidden_state st1) = Inr (out, h')
         \<and> forward_loop d noise tgt 0 (Suc t) st0 = Inr st2
         \<and> prev_hidden_state st2 = h'
         \<and> logits st ! t = out
         \<and> (training d \<longrightarrow> decoder_input st2 = unsqueeze_last (map (\<lambda>row. row ! t) tgt))
         \<and> (\<not> training d \<longrightarrow>
               decoder_input st2 = unsqueeze_last (map (\<lambda>row. int (topk_index d row)) out)
               \<and> (\<forall>row \<in> set out. row \<noteq> [])
               \<and> predictions st ! (length (predictions st0) + t) = map (\<lambda>row. int (topk_index d row)) out)"
  using assms
proof (induction n arbitrary: st)
  case 0
  then show ?case by simp
next
  case (Suc n)
  from Suc.prems(1) obtain sn where ln: "forward_loop d noise tgt 0 n st0 = Inr sn"
    and bn: "forward_body d noise tgt n sn = Inr st"
    by (rule forward_loop_Suc_Inr)
  from forward_body_Inr [OF bn] obtain out h'
    where s: "step d (noise n) n (decoder_input sn) (prev_hidden_state sn) = Inr (out, h')"
      and lg: "logits st = (logits sn)[n := out]"
      and hd': "prev_hidden_state st = h'"
      and tr: "training d \<longrightarrow> decoder_input st = unsqueeze_last (map (\<lambda>row. row ! n) tgt)
                 \<and> predictions st = predictions sn"
      and inf: "\<not> training d \<longrightarrow> (\<forall>row \<in> set out. row \<noteq> [])
                 \<and> decoder_input st = unsqueeze_last (map (\<lambda>row. int (topk_index d row)) out)
                 \<and> predictions st = predictions sn @ [map (\<lambda>row. int (topk_index d row)) out]"
    by blast
  from forward_loop_lengths [OF ln]
  have len: "length (logits sn) = length (logits st0)"
    "\<not> training d \<longrightarrow> length (predictions sn) = length (predictions st0) + n"
    by auto
  show ?case
  proof (cases "t = n")
    case True
    have "logits st ! n = out" using lg len(1) Suc.prems(2) by simp
    moreover have "\<not> training d \<longrightarrow>
        predictions st ! (length (predictions st0) + n) = map (\<lambda>row. int (topk_index d row)) out"
      using inf len(2) by (auto simp: nth_append)
    ultimately show ?thesis
      using True ln s Suc.prems(1) hd' tr inf by auto
  next
    case False
    with Suc.prems(3) have tn: "t < n" by simp
    from Suc.prems(2) have "n \<le> length (logits st0)" by simp
    from Suc.IH [OF ln this tn] obtain st1 st2 out1 h1 where ih:
      "forward_loop d noise tgt 0 t st0 = Inr st1"
      "step d (noise t) t (decoder_input st1) (prev_hidden_state st1) = Inr (out1, h1)"
      "forward_loop d noise tgt 0 (Suc t) st0 = Inr st2"
      "prev_hidden_state st2 = h1"
      "logits sn ! t = out1"
      "training d \<longrightarrow> decoder_input st2 = unsqueeze_last (map (\<lambda>row. row ! t) tgt)"
      "\<not> training d \<longrightarrow>
               decoder_input st2 = unsqueeze_last (map (\<lambda>row. int (topk_index d row)) out1)
               \<and> (\<forall>row \<in> set out1. row \<noteq> [])
               \<and> predictions sn ! (length (predictions st0) + t) = map (\<lambda>row. int (topk_index d row)) out1"
      by blast
    have "logits st ! t = out1" using lg ih(5) tn by simp
    moreover have "\<not> training d \<longrightarrow>
        predictions st ! (length (predictions st0) + t) = map (\<lambda>row. int (topk_index d row)) out1"
      using inf len(2) ih(7) tn by (auto simp: nth_append)
    ultimately show ?thesis using ih by blast
  qed
qed

subsection \<open>The configured beam size\<close>

lemma decoder_rnn_beam_size:
  "decoder_rnn (d\<lparr>beam_size := k\<rparr>) r emb h = decoder_rnn d r emb h"
  by (simp add: decoder_rnn_def Let_def)

lemma step_beam_size: "step (d\<lparr>beam_size := k\<rparr>) r t inputs h = step d r t inputs h"
  by (simp add: step_def embedding_lookup_def decoder_rnn_beam_size linear_transform_def Let_def
      split: sum.split prod.split)

lemma topk1_beam_size: "topk1 (d\<lparr>beam_size := k\<rparr>) out = topk1 d out"
  unfolding topk1_def by (cases "\<forall>row \<in> set out. row \<noteq> []") simp_all

lemma forward_body_beam_size:
  "forward_body (d\<lparr>beam_size := k\<rparr>) noise tgt t st = forward_body d noise tgt t st"
  by (simp add: forward_body_def step_beam_size topk1_beam_size Let_def
      split: sum.split prod.split)

lemma forward_loop_beam_size:
  "forward_loop (d\<lparr>beam_size := k\<rparr>) noise tgt t n st = forward_loop d noise tgt t n st"
  by (induction n arbitrary: t st) (simp_all add: forward_body_beam_size split: sum.split)

text \<open>
  Claim C8. Two decoders that differ in \<open>beam_size\<close> only give the same result of
  \<^verbatim>\<open>forward\<close>, logits, predictions or the error raised, on every input, and the same
  result of \<^verbatim>\<open>step\<close>: the value stored by \<^verbatim>\<open>__init__\<close> is never read.
\<close>

theorem beam_size_noninterference:
  "decoder_forward tk (d\<lparr>beam_size := k\<rparr>) noise encoder_output encoder_hidden_state tgt_seqs
       tgt_seq_lengths =
     decoder_forward tk d noise encoder_output encoder_hidden_state tgt_seqs tgt_seq_lengths
   \<and> step (d\<lparr>beam_size := k\<rparr>) r t inputs h = step d r t inputs h"
  by (simp add: decoder_forward_def forward_loop_beam_size initial_state_def step_beam_size)

subsection \<open>Inference does not read the dropout noise\<close>

lemma decoder_rnn_inference:
  "\<not> training d \<Longrightarrow> decoder_rnn d r emb h = decoder_rnn d r' emb h"
  by (simp add: decoder_rnn_def Let_def)

lemma step_inference: "\<not> training d \<Longrightarrow> step d r t inputs h = step d r' t inputs h"
  using decoder_rnn_inference [of d r _ h r'] by (simp add: step_def split: sum.split)

lemma forward_body_inference:
  "\<not> training d \<Longrightarrow> forward_body d noise tgt t st = forward_body d noise' tgt' t st"
  using step_inference [of d "noise t" t _ _ "noise' t"]
  by (simp add: forward_body_def Let_def split: sum.split prod.split)

lemma forward_loop_inference:
  "\<not> training d \<Longrightarrow> forward_loop d noise tgt t n st = forward_loop d noise' tgt' t n st"
proof (induction n arbitrary: t st)
  case 0
  show ?case by simp
next
  case (Suc n)
  then show ?case
    using forward_body_inference [of d noise tgt t st noise' tgt']
    by (simp split: sum.split)
qed

text \<open>In training mode the noise does reach the kernel: the example decoder gives
  different logits for different noise.\<close>

lemma training_noise_matters:
  "decoder_forward ex_tokens (ex_decoder True) (\<lambda>t. 0) [[[0]]] [[[0, 0]]] [[2, 0]] [2] \<noteq>
   decoder_forward ex_tokens (ex_decoder True) (\<lambda>t. 7) [[[0]]] [[[0, 0]]] [[2, 0]] [2]"
  by code_simp

text \<open>
  Claim C7. In inference mode the result of \<^verbatim>\<open>forward\<close> is a function of the decoder
  (its weights and configuration) and of the arguments alone: two calls with the same
  decoder and the same arguments give the same logits and the same predictions (or raise
  the same error), whatever randomness the two calls had at hand.
\<close>

theorem inference_deterministic:
  assumes "\<not> training d"
  shows "decoder_forward tk d noise encoder_output encoder_hidden_state tgt_seqs tgt_seq_lengths =
         decoder_forward tk d noise' encoder_output encoder_hidden_state tgt_seqs tgt_seq_lengths"
  using forward_loop_inference [OF assms, of noise tgt_seqs 0 _ _ noise' tgt_seqs]
  by (simp add: decoder_forward_def)

theorem inference_deterministic_witness:
  "\<not> training (ex_decoder False) \<and>
   decoder_forward ex_tokens (ex_decoder False) (\<lambda>t. 0) [[[0]]] [[[0, 0]]] [[2]] [2] =
   decoder_forward ex_tokens (ex_decoder False) (\<lambda>t. t + 7) [[[0]]] [[[0, 0]]] [[2]] [2]"
proof -
  have h: "\<not> training (ex_decoder False)" by (simp add: ex_decoder_def)
  show ?thesis using h inference_deterministic [OF h] by blast
qed

section \<open>Training mode: teacher forcing\<close>

lemma transpose01_nth:
  "b < B \<Longrightarrow> t < length ls \<Longrightarrow> transpose01 B ls ! b ! t = ls ! t ! b"
  by (simp add: transpose01_def)

lemma transpose01_shape:
  assumes "logits_shape B V ls"
  shows "length (transpose01 B ls) = B
         \<and> (\<forall>row \<in> set (transpose01 B ls). length row = length ls \<and> (\<forall>v \<in> set row. length v = V))"
  using assms by (auto simp: transpose01_def logits_shape_def)





text \<open>
  Claim C3, as amended. In training mode, with arguments the first step accepts and a
  target tensor that has one row of in-vocabulary ids for every sequence of the batch:
  when every target row has at least \<open>max_seq_len\<close> positions, \<^verbatim>\<open>forward\<close> returns, the
  logits have shape \<open>(batch, max_seq_len, vocab_size)\<close> and the list of predictions is
  empty; when some target row is shorter than \<open>max_seq_len\<close>, \<^verbatim>\<open>forward\<close> raises an
  \<open>IndexError\<close> at \<^verbatim>\<open>tgt_seqs[:, t]\<close> and returns nothing.
\<close>

theorem training_logits_shape:
  assumes "training d" and "decoder_args_ok tk d encoder_output encoder_hidden_state"
    and "length tgt_seqs = length encoder_output" and "ids_in_range d tgt_seqs"
  shows "if \<forall>row \<in> set tgt_seqs. max_seq_len d \<le> length row
         then \<exists>lg. decoder_forward tk d noise encoder_output encoder_hidden_state tgt_seqs
                      tgt_seq_lengths = Inr (lg, [])
                \<and> length lg = length encoder_output
                \<and> (\<forall>row \<in> set lg. length row = max_seq_len d
                                  \<and> (\<forall>v \<in> set row. length v = vocab_size d))
         else decoder_forward tk d noise encoder_output encoder_hidden_state tgt_seqs
                tgt_seq_lengths = Inl IndexError"
proof -
  let ?B = "length encoder_output"
  let ?st0 = "initial_state tk d encoder_output encoder_hidden_state"
  have w: "weight_shape d" using assms(2) by (simp add: decoder_args_ok_def)
  have ok0: "state_ok d ?B ?st0" using assms(2) by (rule initial_state_ok)
  have l0: "length (logits ?st0) = max_seq_len d" "predictions ?st0 = []"
    by (simp_all add: initial_state_def Let_def)
  show ?thesis
  proof (cases "\<forall>row \<in> set tgt_seqs. max_seq_len d \<le> length row")
    case True
    then have "\<forall>row \<in> set tgt_seqs. 0 + max_seq_len d \<le> length row" by simp
    from loop_ok_training [OF assms(1) w assms(3,4) ok0 this, of noise]
    obtain st where st: "forward_loop d noise tgt_seqs 0 (max_seq_len d) ?st0 = Inr st"
      "state_ok d ?B st" "length (logits st) = max_seq_len d" "predictions st = []"
      using l0 by auto
    from st(2) have "logits_shape ?B (vocab_size d) (logits st)" by (simp add: state_ok_def)
    from transpose01_shape [OF this] st True show ?thesis
      by (simp add: decoder_forward_def)
  next
    case False
    from False obtain r0 where r0: "r0 \<in> set tgt_seqs" "length r0 < max_seq_len d"
      by (auto simp: not_le)
    define w' where "w' = Min (length ` set tgt_seqs)"
    have fin: "finite (length ` set tgt_seqs)" by simp
    have ne: "length ` set tgt_seqs \<noteq> {}" using r0(1) by auto
    have wmin: "\<forall>row \<in> set tgt_seqs. w' \<le> length row"
      unfolding w'_def using fin by (auto intro: Min_le)
    have "w' \<in> length ` set tgt_seqs"
      unfolding w'_def using fin ne by (rule Min_in)
    then obtain r where r: "r \<in> set tgt_seqs" "length r = w'" by auto
    from wmin r0(1) have "w' \<le> length r0" by blast
    with r0(2) have wlt: "w' < max_seq_len d" by simp
    from wmin have "\<forall>row \<in> set tgt_seqs. 0 + w' \<le> length row" by simp
    from loop_ok_training [OF assms(1) w assms(3,4) ok0 this, of noise]
    obtain st1 where st1: "forward_loop d noise tgt_seqs 0 w' ?st0 = Inr st1" "state_ok d ?B st1"
      by auto
    from st1(2) w obtain out h'
      where s: "step d (noise w') w' (decoder_input st1) (prev_hidden_state st1) = Inr (out, h')"
      using step_total [of d "decoder_input st1" "prev_hidden_state st1" "noise w'" w']
      by (auto simp: state_ok_def)
    have "\<not> (\<forall>row \<in> set tgt_seqs. w' < length row)" using r by auto
    with forward_body_training [where noise = noise and t = w' and tgt = tgt_seqs, OF assms(1) s]
    have b: "forward_body d noise tgt_seqs w' st1 = Inl IndexError" by simp
    define k where "k = max_seq_len d - Suc w'"
    have k: "max_seq_len d = w' + Suc k" using wlt by (simp add: k_def)
    have "forward_loop d noise tgt_seqs 0 (max_seq_len d) ?st0 = Inl IndexError"
      unfolding k using forward_loop_add [of d noise tgt_seqs 0 w' "Suc k" ?st0] st1(1) b
      by simp
    with False show ?thesis by (simp add: decoder_forward_def)
  qed
qed

theorem training_logits_shape_witness:
  "training (ex_decoder True)
   \<and> decoder_args_ok ex_tokens (ex_decoder True) [[[0]]] [[[0, 0]]]
   \<and> length [[2, 0 :: int]] = length [[[0 :: real]]]
   \<and> ids_in_range (ex_decoder True) [[2, 0]]
   \<and> (\<exists>lg. decoder_forward ex_tokens (ex_decoder True) (\<lambda>t. 0) [[[0]]] [[[0, 0]]] [[2, 0]] [2]
               = Inr (lg, [])
          \<and> length lg = 1
          \<and> (\<forall>row \<in> set lg. length row = 2 \<and> (\<forall>v \<in> set row. length v = 3)))"
proof -
  have h1: "training (ex_decoder True)" by (simp add: ex_decoder_def)
  have h2: "decoder_args_ok ex_tokens (ex_decoder True) [[[0]]] [[[0, 0]]]" by code_simp
  have h3: "length [[2, 0 :: int]] = length [[[0 :: real]]]" by simp
  have h4: "ids_in_range (ex_decoder True) [[2, 0]]" by code_simp
  have m: "max_seq_len (ex_decoder True) = 2" "vocab_size (ex_decoder True) = 3"
    by (simp_all add: ex_decoder_def)
  from training_logits_shape [OF h1 h2 h3 h4, of "\<lambda>t. 0" "[2]"] m
  have "\<exists>lg. decoder_forward ex_tokens (ex_decoder True) (\<lambda>t. 0) [[[0]]] [[[0, 0]]] [[2, 0]] [2]
               = Inr (lg, [])
          \<and> length lg = 1
          \<and> (\<forall>row \<in> set lg. length row = 2 \<and> (\<forall>v \<in> set row. length v = 3))"
    by simp
  with h1 h2 h3 h4 show ?thesis by blast
qed

text \<open>The claim as stated, for a target of any length, fails on a target of width 1 with
  \<open>max_seq_len = 2\<close>.\<close>

theorem training_short_target_counterexample:
  "decoder_forward ex_tokens (ex_decoder True) (\<lambda>t. 0) [[[0]]] [[[0, 0]]] [[2]] [1]
     = Inl IndexError
   \<and> training (ex_decoder True) \<and> max_seq_len (ex_decoder True) = 2"
  by code_simp

section \<open>Inference mode: greedy search\<close>




section \<open>The recurrence of the decoder\<close>

text \<open>The entries of a log-softmax row are the logarithms of a probability
  distribution.\<close>

lemma sum_exp_pos: "xs \<noteq> [] \<Longrightarrow> 0 < (\<Sum>y\<leftarrow>xs. exp (y::real))"
proof (induction xs)
  case Nil
  then show ?case by simp
next
  case (Cons x xs)
  have "0 < exp x" by simp
  moreover have "0 \<le> (\<Sum>y\<leftarrow>xs. exp y)" by (rule sum_list_nonneg) auto
  ultimately have "0 < exp x + (\<Sum>y\<leftarrow>xs. exp y)" by (rule add_pos_nonneg)
  then show ?case by simp
qed

lemma log_softmax_normalised:
  assumes "xs \<noteq> []"
  shows "(\<Sum>x\<leftarrow>map (log_softmax xs) [0..<length xs]. exp x) = 1"
proof -
  let ?S = "\<Sum>y\<leftarrow>xs. exp y"
  have S: "0 < ?S" using assms by (rule sum_exp_pos)
  have "map (\<lambda>j. exp (log_softmax xs j)) [0..<length xs]
          = map (\<lambda>j. exp (xs ! j) * (1 / ?S)) [0..<length xs]"
    using S by (simp add: log_softmax_def exp_diff)
  also have "\<dots> = map (\<lambda>y. exp y * (1 / ?S)) (map (nth xs) [0..<length xs])"
    by (simp add: o_def)
  also have "\<dots> = map (\<lambda>y. exp y * (1 / ?S)) xs"
    by (simp only: map_nth)
  finally have "(\<Sum>x\<leftarrow>map (log_softmax xs) [0..<length xs]. exp x)
                  = (\<Sum>y\<leftarrow>xs. exp y * (1 / ?S))"
    by (simp add: o_def)
  also have "\<dots> = ?S * (1 / ?S)" by (rule sum_list_mult_const)
  also have "\<dots> = 1" using S by simp
  finally show ?thesis .
qed

lemma step_Inr_output_func:
  assumes "decoder_output_func d = Some f" "step d r t inputs h = Inr (out, h')"
  shows "\<exists>emb outputs. embedding_lookup d inputs = Inr emb
           \<and> decoder_rnn d r emb h = Inr (outputs, h')
           \<and> out = apply_last_axis f (linear_transform d (map hd outputs))"
  using assms by (auto simp: step_def Let_def split: sum.splits prod.splits)

lemma map_length_unsqueeze_last:
  "map length (unsqueeze_last xs) = replicate (length xs) 1"
  by (simp add: unsqueeze_last_def o_def map_replicate_const)

lemma hidden_shape_batch:
  assumes "0 < num_layers d" "hidden_shape d B h" "hidden_shape d B' h"
  shows "B = B'"
proof -
  from assms(1,2) have "h \<noteq> []" by (auto simp: hidden_shape_def)
  then have "hd h \<in> set h" by simp
  with assms(2,3) show ?thesis unfolding hidden_shape_def by metis
qed

lemma forward_loop_input_shape:
  assumes L: "0 < num_layers d"
    and run: "forward_loop d noise tgt 0 n st0 = Inr st"
    and n: "n \<le> length (logits st0)"
    and i0: "map length (decoder_input st0) = replicate B 1"
  shows "t < n \<Longrightarrow> \<exists>st1. forward_loop d noise tgt 0 t st0 = Inr st1
                         \<and> map length (decoder_input st1) = replicate B 1"
proof (induction t)
  case 0
  then show ?case using i0 by simp
next
  case (Suc k)
  then have k: "k < n" by simp
  from Suc.IH [OF k] obtain sk where sk: "forward_loop d noise tgt 0 k st0 = Inr sk"
    "map length (decoder_input sk) = replicate B 1" by blast
  from forward_loop_trace [OF run n k] sk(1) obtain s1 out h' where a:
    "step d (noise k) k (decoder_input sk) (prev_hidden_state sk) = Inr (out, h')"
    "forward_loop d noise tgt 0 (Suc k) st0 = Inr s1"
    "prev_hidden_state s1 = h'"
    "\<exists>xs. decoder_input s1 = unsqueeze_last xs"
    by (cases "training d") auto
  from forward_loop_trace [OF run n Suc.prems] a(2) obtain out2 h2 where b:
    "step d (noise (Suc k)) (Suc k) (decoder_input s1) (prev_hidden_state s1) = Inr (out2, h2)"
    by auto
  from step_shape [OF a(1)] have h1: "hidden_shape d (length (decoder_input sk)) h'" by simp
  from step_shape [OF b] a(3) have h2: "hidden_shape d (length (decoder_input s1)) h'" by simp
  from hidden_shape_batch [OF L h1 h2] have "length (decoder_input s1) = length (decoder_input sk)"
    by simp
  also from sk(2) have "length (decoder_input sk) = B"
    using length_map [of length "decoder_input sk"] by simp
  finally have len: "length (decoder_input s1) = B" .
  from a(4) obtain xs where xs: "decoder_input s1 = unsqueeze_last xs" by blast
  with len have "length xs = B" by (simp add: unsqueeze_last_def)
  with xs have "map length (decoder_input s1) = replicate B 1"
    by (simp add: map_length_unsqueeze_last)
  with a(2) show ?case by blast
qed

text \<open>
  Claim C6. Let the decoder be as \<^verbatim>\<open>__init__\<close> builds it: its output function is
  log-softmax and its recurrent stack has at least one layer. For every call of
  \<^verbatim>\<open>forward\<close> that returns, in training mode and in inference mode alike, and every
  step \<open>t\<close> of the loop:
  the state before step 0 feeds the start-of-sequence id to every sequence of the batch and
  its hidden state is the encoder hidden state passed in;
  step \<open>t\<close> starts from one input id for every sequence of the batch, looks the ids up in
  the embedding weight, runs the recurrent stack on the embeddings and the previous hidden
  state, and column \<open>t\<close> of the returned logits is the log-softmax, along the vocabulary
  axis, of the linear projection of the recurrent output; the hidden state the recurrent
  stack returns is the previous hidden state of step \<open>t + 1\<close>;
  every row of logits has \<open>vocab_size\<close> entries, whose exponentials sum to one.
\<close>

theorem decoder_recurrence:
  assumes f: "decoder_output_func d = Some log_softmax"
    and L: "0 < num_layers d"
    and run: "decoder_forward tk d noise encoder_output encoder_hidden_state tgt_seqs
                tgt_seq_lengths = Inr (lg, preds)"
    and t: "t < max_seq_len d"
  shows "(\<exists>st0. state_at tk d noise encoder_output encoder_hidden_state tgt_seqs 0 = Inr st0
            \<and> decoder_input st0
                 = unsqueeze_last (replicate (length encoder_output) (int (SOS_TOKEN_ID tk)))
            \<and> prev_hidden_state st0 = encoder_hidden_state)
       \<and> (\<exists>st emb outputs h' st'.
            state_at tk d noise encoder_output encoder_hidden_state tgt_seqs t = Inr st
            \<and> map length (decoder_input st) = replicate (length encoder_output) 1
            \<and> embedding_lookup d (decoder_input st) = Inr emb
            \<and> emb = map (map (\<lambda>i. embedding_weight d ! nat i)) (decoder_input st)
            \<and> decoder_rnn d (noise t) emb (prev_hidden_state st) = Inr (outputs, h')
            \<and> map (\<lambda>row. row ! t) lg
                 = apply_last_axis log_softmax (linear_transform d (map hd outputs))
            \<and> state_at tk d noise encoder_output encoder_hidden_state tgt_seqs (Suc t) = Inr st'
            \<and> prev_hidden_state st' = h')
       \<and> length lg = length encoder_output
       \<and> (\<forall>b < length encoder_output.
             length (lg ! b ! t) = vocab_size d
             \<and> (0 < vocab_size d \<longrightarrow> (\<Sum>x\<leftarrow>lg ! b ! t. exp x) = 1))"
proof -
  let ?B = "length encoder_output"
  let ?st0 = "initial_state tk d encoder_output encoder_hidden_state"
  from run obtain fin where fin: "forward_loop d noise tgt_seqs 0 (max_seq_len d) ?st0 = Inr fin"
    and lg: "lg = transpose01 ?B (logits fin)"
    by (auto simp: decoder_forward_def split: sum.splits)
  have n: "max_seq_len d \<le> length (logits ?st0)"
    by (simp add: initial_state_def Let_def)
  have i0: "map length (decoder_input ?st0) = replicate ?B 1"
    by (simp add: initial_state_def Let_def map_length_unsqueeze_last)
  have c1: "\<exists>st0. state_at tk d noise encoder_output encoder_hidden_state tgt_seqs 0 = Inr st0
            \<and> decoder_input st0
                 = unsqueeze_last (replicate ?B (int (SOS_TOKEN_ID tk)))
            \<and> prev_hidden_state st0 = encoder_hidden_state"
    by (simp add: state_at_def initial_state_def Let_def)
  from forward_loop_input_shape [OF L fin n i0 t]
  obtain st where st: "forward_loop d noise tgt_seqs 0 t ?st0 = Inr st"
    "map length (decoder_input st) = replicate ?B 1" by blast
  from forward_loop_trace [OF fin n t] st(1) obtain st' out h' where tr:
    "step d (noise t) t (decoder_input st) (prev_hidden_state st) = Inr (out, h')"
    "forward_loop d noise tgt_seqs 0 (Suc t) ?st0 = Inr st'"
    "prev_hidden_state st' = h'"
    "logits fin ! t = out"
    by auto
  from step_Inr_output_func [OF f tr(1)] obtain emb outputs where so:
    "embedding_lookup d (decoder_input st) = Inr emb"
    "decoder_rnn d (noise t) emb (prev_hidden_state st) = Inr (outputs, h')"
    "out = apply_last_axis log_softmax (linear_transform d (map hd outputs))"
    by blast
  from so(1) have emb: "emb = map (map (\<lambda>i. embedding_weight d ! nat i)) (decoder_input st)"
    by (simp add: embedding_lookup_Inr)
  from st(2) have lenin: "length (decoder_input st) = ?B"
    using length_map [of length "decoder_input st"] by simp
  from step_shape [OF tr(1)] lenin
  have sh: "length out = ?B" "\<forall>row \<in> set out. length row = vocab_size d" by auto
  from forward_loop_lengths [OF fin] have lf: "length (logits fin) = max_seq_len d"
    by (simp add: initial_state_def Let_def)
  have nth: "\<And>b. b < ?B \<Longrightarrow> lg ! b ! t = out ! b"
    using t lf tr(4) by (simp add: lg transpose01_nth)
  have len_lg: "length lg = ?B" by (simp add: lg transpose01_def)
  have "map (\<lambda>row. row ! t) lg = map (\<lambda>b. logits fin ! t ! b) [0..<?B]"
    using t lf by (simp add: lg transpose01_def o_def)
  also have "\<dots> = map (nth out) [0..<length out]"
    unfolding tr(4) sh(1) ..
  also have "\<dots> = out" by (rule map_nth)
  finally have col: "map (\<lambda>row. row ! t) lg
                 = apply_last_axis log_softmax (linear_transform d (map hd outputs))"
    using so(3) by simp
  have c2: "\<exists>st emb outputs h' st'.
            state_at tk d noise encoder_output encoder_hidden_state tgt_seqs t = Inr st
            \<and> map length (decoder_input st) = replicate ?B 1
            \<and> embedding_lookup d (decoder_input st) = Inr emb
            \<and> emb = map (map (\<lambda>i. embedding_weight d ! nat i)) (decoder_input st)
            \<and> decoder_rnn d (noise t) emb (prev_hidden_state st) = Inr (outputs, h')
            \<and> map (\<lambda>row. row ! t) lg
                 = apply_last_axis log_softmax (linear_transform d (map hd outputs))
            \<and> state_at tk d noise encoder_output encoder_hidden_state tgt_seqs (Suc t) = Inr st'
            \<and> prev_hidden_state st' = h'"
    unfolding state_at_def using st so(1,2) emb col tr(2,3) by blast
  have c4: "\<forall>b < ?B. length (lg ! b ! t) = vocab_size d
             \<and> (0 < vocab_size d \<longrightarrow> (\<Sum>x\<leftarrow>lg ! b ! t. exp x) = 1)"
  proof (intro allI impI)
    fix b assume b: "b < ?B"
    let ?row = "linear_transform d (map hd outputs) ! b"
    from b sh(1) so(3) have lb: "b < length (linear_transform d (map hd outputs))"
      by (simp add: apply_last_axis_def)
    then have lr: "length ?row = vocab_size d"
      by (simp add: linear_transform_def)
    from lb so(3) have ob: "out ! b = map (log_softmax ?row) [0..<length ?row]"
      by (simp add: apply_last_axis_def)
    have "0 < vocab_size d \<longrightarrow> (\<Sum>x\<leftarrow>out ! b. exp x) = 1"
    proof
      assume "0 < vocab_size d"
      with lr have "?row \<noteq> []" by auto
      from log_softmax_normalised [OF this] show "(\<Sum>x\<leftarrow>out ! b. exp x) = 1"
        unfolding ob .
    qed
    moreover have "length (out ! b) = vocab_size d" using ob lr by simp
    ultimately show "length (lg ! b ! t) = vocab_size d
             \<and> (0 < vocab_size d \<longrightarrow> (\<Sum>x\<leftarrow>lg ! b ! t. exp x) = 1)"
      unfolding nth [OF b] by blast
  qed
  from c1 c2 len_lg c4 show ?thesis by (intro conjI)
qed

theorem decoder_recurrence_witness:
  "\<exists>lg preds.
     decoder_output_func (ex_log_softmax_decoder False) = Some log_softmax
     \<and> 0 < num_layers (ex_log_softmax_decoder False)
     \<and> decoder_forward ex_tokens (ex_log_softmax_decoder False) (\<lambda>t. 0) [[[0]]] [[[0, 0]]] [] [] = Inr (lg, preds)
     \<and> 1 < max_seq_len (ex_log_softmax_decoder False)
     \<and> (\<exists>st0. state_at ex_tokens (ex_log_softmax_decoder False) (\<lambda>t. 0) [[[0::real]]] [[[0, 0]]] [] 0 = Inr st0
              \<and> decoder_input st0
                   = unsqueeze_last (replicate (length [[[0::real]]]) (int (SOS_TOKEN_ID ex_tokens)))
              \<and> prev_hidden_state st0 = [[[0, 0]]])
         \<and> (\<exists>st emb outputs h' st'.
              state_at ex_tokens (ex_log_softmax_decoder False) (\<lambda>t. 0) [[[0::real]]] [[[0, 0]]] [] 1 = Inr st
              \<and> map length (decoder_input st) = replicate (length [[[0::real]]]) 1
              \<and> embedding_lookup (ex_log_softmax_decoder False) (decoder_input st) = Inr emb
              \<and> emb = map (map (\<lambda>i. embedding_weight (ex_log_softmax_decoder False) ! nat i)) (decoder_input st)
              \<and> decoder_rnn (ex_log_softmax_decoder False) 0 emb (prev_hidden_state st) = Inr (outputs, h')
              \<and> map (\<lambda>row. row ! 1) lg
                   = apply_last_axis log_softmax (linear_transform (ex_log_softmax_decoder False) (map hd outputs))
              \<and> state_at ex_tokens (ex_log_softmax_decoder False) (\<lambda>t. 0) [[[0::real]]] [[[0, 0]]] [] (Suc 1) = Inr st'
              \<and> prev_hidden_state st' = h')
         \<and> length lg = length [[[0::real]]]
         \<and> (\<forall>b < length [[[0::real]]].
               length (lg ! b ! 1) = vocab_size (ex_log_softmax_decoder False)
               \<and> (0 < vocab_size (ex_log_softmax_decoder False) \<longrightarrow> (\<Sum>x\<leftarrow>(lg ! b ! 1). exp x) = 1))"
proof -
  let ?d = "ex_log_softmax_decoder False"
  have f: "decoder_output_func ?d = Some log_softmax"
    by (simp add: ex_log_softmax_decoder_def)
  have L: "0 < num_layers ?d" by (simp add: ex_log_softmax_decoder_def ex_decoder_def)
  have t: "1 < max_seq_len ?d" by (simp add: ex_log_softmax_decoder_def ex_decoder_def)
  have inf: "\<not> training ?d" by (simp add: ex_log_softmax_decoder_def ex_decoder_def)
  have ok: "decoder_args_ok ex_tokens ?d [[[0]]] [[[0, 0]]]"
    by (simp add: decoder_args_ok_def weight_shape_def hidden_shape_def
        ex_log_softmax_decoder_def ex_decoder_def ex_tokens_def)
  then have w: "weight_shape ?d" and v: "0 < vocab_size ?d"
    by (auto simp: decoder_args_ok_def)
  have tko: "topk_ok ?d"
    by (rule first_largest_topk_ok) (simp add: ex_log_softmax_decoder_def ex_decoder_def)
  from loop_ok_inference [OF inf w v tko initial_state_ok [OF ok], of "\<lambda>t. 0" "[]" 0 "max_seq_len ?d"]
  obtain st where "forward_loop ?d (\<lambda>t. 0) [] 0 (max_seq_len ?d)
                     (initial_state ex_tokens ?d [[[0]]] [[[0, 0]]]) = Inr st"
    by blast
  then have run: "decoder_forward ex_tokens ?d (\<lambda>t. 0) [[[0]]] [[[0, 0]]] [] []
                    = Inr (transpose01 (length [[[0::real]]]) (logits st), predictions st)"
    by (simp add: decoder_forward_def)
  from decoder_recurrence [OF f L run t] f L run t
  show ?thesis by blast
qed

section \<open>The encoder: packing, padding and the merge of the directions\<close>

lemma fold_max_absorb: "\<forall>x \<in> set xs. x \<le> a \<Longrightarrow> fold max xs (a::nat) = a"
  by (induction xs) (auto simp: max_absorb2)

lemma fold_max_sorted_desc:
  assumes "sorted (rev ls)" "ls \<noteq> []"
  shows "fold max ls (0::nat) = hd ls"
proof -
  from assms(2) obtain l ls' where ls: "ls = l # ls'" by (cases ls) auto
  with assms(1) have "\<forall>x \<in> set ls'. x \<le> l" by (auto simp: sorted_append)
  then have "fold max ls' l = l" by (rule fold_max_absorb)
  with ls show ?thesis by simp
qed

lemma pack_padded_sequence_Inr:
  assumes "emb \<noteq> []" "list_all2 (\<lambda>s l. 0 < l \<and> l \<le> length s) emb lens" "sorted (rev lens)"
  shows "\<exists>packed. pack_padded_sequence emb lens = Inr packed
           \<and> map length packed = lens
           \<and> (\<forall>s \<in> set packed. \<exists>s' \<in> set emb. set s \<subseteq> set s')"
proof -
  let ?p = "map (\<lambda>(s, l). take l s) (zip emb lens)"
  have p: "pack_padded_sequence emb lens = Inr ?p"
    using assms by (simp add: pack_padded_sequence_def)
  from assms(2) have "map length ?p = lens"
    by (induction emb lens rule: list_all2_induct) auto
  moreover have "\<forall>s \<in> set ?p. \<exists>s' \<in> set emb. set s \<subseteq> set s'"
  proof
    fix s assume "s \<in> set ?p"
    then obtain s' l where "(s', l) \<in> set (zip emb lens)" "s = take l s'" by auto
    then have "s' \<in> set emb" "set s \<subseteq> set s'"
      by (auto dest: set_zip_leftD in_set_takeD)
    then show "\<exists>s' \<in> set emb. set s \<subseteq> set s'" by blast
  qed
  ultimately show ?thesis using p by blast
qed

lemma length_direction_concat:
  "length (concat (map (\<lambda>dir. map (f dir) [0..<H]) [0..<D])) = D * H"
  by (induction D) (auto simp: length_concat)

lemma encoder_rnn_Inr:
  assumes "encoder_rnn e r packed = Inr (ro, rh)"
  shows "map length ro = map length packed"
    and "\<forall>s \<in> set ro. \<forall>v \<in> set s. length v = num_directions e * hidden_size e"
    and "tensor_shape (num_directions e * num_layers e) (length packed) (hidden_size e) rh"
    and "rh = map (\<lambda>k. map (\<lambda>b. map (\<lambda>j. rnn_final e (if training e then Some r else None)
                                          packed None (k div num_directions e)
                                          (k mod num_directions e) b j)
                                  [0..<hidden_size e])
                          [0..<length packed])
                [0..<num_directions e * num_layers e]"
proof -
  from assms have ro: "ro = map (\<lambda>b. map (\<lambda>t. concat (map (\<lambda>dir.
                                    map (\<lambda>j. rnn_output e (if training e then Some r else None)
                                               packed None dir b t j)
                                        [0..<hidden_size e])
                                  [0..<num_directions e]))
                          [0..<length (packed ! b)])
                [0..<length packed]"
    and rh: "rh = map (\<lambda>k. map (\<lambda>b. map (\<lambda>j. rnn_final e (if training e then Some r else None)
                                          packed None (k div num_directions e)
                                          (k mod num_directions e) b j)
                                  [0..<hidden_size e])
                          [0..<length packed])
                [0..<num_directions e * num_layers e]"
    by (auto simp: encoder_rnn_def Let_def split: if_splits)
  show "map length ro = map length packed"
    unfolding ro by (rule nth_equalityI) simp_all
  show "\<forall>s \<in> set ro. \<forall>v \<in> set s. length v = num_directions e * hidden_size e"
    unfolding ro by (auto simp: length_direction_concat)
  show "tensor_shape (num_directions e * num_layers e) (length packed) (hidden_size e) rh"
    unfolding rh tensor_shape_def by auto
  show "rh = map (\<lambda>k. map (\<lambda>b. map (\<lambda>j. rnn_final e (if training e then Some r else None)
                                          packed None (k div num_directions e)
                                          (k mod num_directions e) b j)
                                  [0..<hidden_size e])
                          [0..<length packed])
                [0..<num_directions e * num_layers e]"
    by (rule rh)
qed

lemma encoder_unmerged_Inr:
  assumes "encoder_args_ok e x lens"
  shows "\<exists>packed ro rh.
           map length packed = lens
         \<and> encoder_rnn e r packed = Inr (ro, rh)
         \<and> encoder_unmerged tk e r x lens
             = Inr (pad_packed_sequence ro (real (PAD_TOKEN_ID tk)), rh)"
proof -
  let ?emb = "map (map (\<lambda>i. embedding_weight e ! nat i)) x"
  from assms have w: "weight_shape e" and ids: "ids_in_range e x" and ne: "?emb \<noteq> []"
    and la: "list_all2 (\<lambda>s l. 0 < l \<and> l \<le> length s) ?emb lens"
    and so: "sorted (rev lens)"
    by (auto simp: encoder_args_ok_def list_all2_map1)
  have e: "embedding_lookup e x = Inr ?emb"
    using ids by (simp add: embedding_lookup_Inr)
  from pack_padded_sequence_Inr [OF ne la so] obtain packed where p:
    "pack_padded_sequence ?emb lens = Inr packed" "map length packed = lens"
    "\<forall>s \<in> set packed. \<exists>s' \<in> set ?emb. set s \<subseteq> set s'"
    by blast
  from embedding_rows [OF w ids] p(3)
  have rows: "\<forall>s \<in> set packed. \<forall>v \<in> set s. length v = embedding_dim e"
    by blast
  then obtain ro rh where r: "encoder_rnn e r packed = Inr (ro, rh)"
    by (simp add: encoder_rnn_def Let_def)
  show ?thesis
    using e p(1,2) r by (auto simp: encoder_unmerged_def)
qed

lemma pad_packed_sequence_nth:
  assumes "map length ro = lens" "sorted (rev lens)" "b < length ro"
  shows "pad_packed_sequence ro p ! b
           = ro ! b @ replicate (hd lens - lens ! b) (replicate (length (hd (hd ro))) p)"
    and "length (pad_packed_sequence ro p) = length ro"
proof -
  from assms(1,3) have "lens \<noteq> []" by auto
  from fold_max_sorted_desc [OF assms(2) this] assms(1)
  have T: "fold max (map length ro) 0 = hd lens" by simp
  from assms(1,3) have "length (ro ! b) = lens ! b"
    using nth_map [of b ro length] by simp
  then show "pad_packed_sequence ro p ! b
           = ro ! b @ replicate (hd lens - lens ! b) (replicate (length (hd (hd ro))) p)"
    using assms(3) by (simp add: pad_packed_sequence_def Let_def T)
  show "length (pad_packed_sequence ro p) = length ro"
    by (simp add: pad_packed_sequence_def Let_def)
qed

lemma sorted_desc_nth_le_hd:
  assumes "sorted (rev ls)" "b < length ls"
  shows "ls ! b \<le> (hd ls :: nat)"
proof -
  from assms(2) obtain l ls' where ls: "ls = l # ls'" by (cases ls) auto
  with assms(1) have "\<forall>x \<in> set ls'. x \<le> l" by (auto simp: sorted_append)
  moreover from assms(2) have "ls ! b \<in> set ls" by simp
  ultimately show ?thesis using ls by auto
qed

lemma tensor_shapeI:
  assumes "length xs = n1"
    and "\<And>b. b < n1 \<Longrightarrow> length (xs ! b) = n2"
    and "\<And>b t. b < n1 \<Longrightarrow> t < n2 \<Longrightarrow> length (xs ! b ! t) = n3"
  shows "tensor_shape n1 n2 n3 xs"
  unfolding tensor_shape_def
proof (intro conjI ballI)
  show "length xs = n1" by (rule assms(1))
next
  fix s assume "s \<in> set xs"
  then obtain b where b: "b < length xs" "s = xs ! b" by (auto simp: in_set_conv_nth)
  with assms(1,2) show "length s = n2" by simp
next
  fix s v assume "s \<in> set xs" "v \<in> set s"
  then obtain b t where "b < length xs" "s = xs ! b" "t < length s" "v = s ! t"
    by (auto simp: in_set_conv_nth)
  with assms show "length v = n3" by simp
qed

lemma tensor_shapeD:
  assumes "tensor_shape n1 n2 n3 xs"
  shows "length xs = n1"
    and "b < n1 \<Longrightarrow> length (xs ! b) = n2"
    and "b < n1 \<Longrightarrow> t < n2 \<Longrightarrow> length (xs ! b ! t) = n3"
proof -
  from assms show l: "length xs = n1" by (simp add: tensor_shape_def)
  {
    assume b: "b < n1"
    with l have m: "xs ! b \<in> set xs" by simp
    with assms show l2: "length (xs ! b) = n2" by (simp add: tensor_shape_def)
    assume "t < n2"
    with l2 have "xs ! b ! t \<in> set (xs ! b)" by simp
    with assms m show "length (xs ! b ! t) = n3" unfolding tensor_shape_def by blast
  }
qed

lemma encoder_unmerged_shape:
  assumes ok: "encoder_args_ok e x lens"
  shows "\<exists>uo uh. encoder_unmerged tk e r x lens = Inr (uo, uh)
           \<and> tensor_shape (length x) (hd lens) (num_directions e * hidden_size e) uo
           \<and> tensor_shape (num_directions e * num_layers e) (length x) (hidden_size e) uh
           \<and> (\<forall>b < length x. \<forall>t < hd lens. lens ! b \<le> t \<longrightarrow>
                 uo ! b ! t = replicate (num_directions e * hidden_size e)
                                (real (PAD_TOKEN_ID tk)))"
proof -
  let ?F = "num_directions e * hidden_size e"
  let ?p = "real (PAD_TOKEN_ID tk)"
  from ok have la: "list_all2 (\<lambda>row l. 0 < l \<and> l \<le> length row) x lens"
    and so: "sorted (rev lens)" and ne: "x \<noteq> []"
    by (auto simp: encoder_args_ok_def)
  from la have lx: "length lens = length x" by (simp add: list_all2_lengthD)
  from la have pos: "\<And>b. b < length x \<Longrightarrow> 0 < lens ! b"
    by (auto simp: list_all2_conv_all_nth)
  from encoder_unmerged_Inr [OF ok, of r tk] obtain packed ro rh where a:
    "map length packed = lens" "encoder_rnn e r packed = Inr (ro, rh)"
    "encoder_unmerged tk e r x lens = Inr (pad_packed_sequence ro ?p, rh)"
    by blast
  from a(1) lx have lp: "length packed = length x"
    using length_map [of length packed] by simp
  note rn = encoder_rnn_Inr [OF a(2)]
  from rn(1) a(1) have ml: "map length ro = lens" by simp
  with lx have lr: "length ro = length x" using length_map [of length ro] by simp
  have lb: "\<And>b. b < length x \<Longrightarrow> length (ro ! b) = lens ! b"
    using ml lr nth_map [of _ ro length] by auto
  from ne lr have ro_ne: "ro \<noteq> []" by auto
  from ne have x0: "0 < length x" by simp
  from ro_ne have hd0: "hd ro = ro ! 0" by (simp add: hd_conv_nth)
  from ro_ne have "hd ro \<in> set ro" by simp
  moreover from lb [OF x0] pos [OF x0] hd0 have "hd ro \<noteq> []" by auto
  ultimately have "hd ro \<in> set ro" "hd ro \<noteq> []" .
  then have "hd (hd ro) \<in> set (hd ro)" by simp
  with rn(2) \<open>hd ro \<in> set ro\<close> have F: "length (hd (hd ro)) = ?F" by blast
  let ?uo = "pad_packed_sequence ro ?p"
  have nth: "\<And>b. b < length x \<Longrightarrow>
               ?uo ! b = ro ! b @ replicate (hd lens - lens ! b) (replicate ?F ?p)"
    using pad_packed_sequence_nth(1) [OF ml so, of _ ?p] lr F by simp
  have len: "length ?uo = length x"
    by (simp add: pad_packed_sequence_def Let_def lr)
  have le: "\<And>b. b < length x \<Longrightarrow> lens ! b \<le> hd lens"
    using sorted_desc_nth_le_hd [OF so] lx by simp
  have vec: "\<And>b t. b < length x \<Longrightarrow> t < lens ! b \<Longrightarrow> length (ro ! b ! t) = ?F"
  proof -
    fix b t assume b: "b < length x" and t: "t < lens ! b"
    with lb lr have "ro ! b \<in> set ro" "ro ! b ! t \<in> set (ro ! b)" by auto
    with rn(2) show "length (ro ! b ! t) = ?F" by blast
  qed
  have sh: "tensor_shape (length x) (hd lens) ?F ?uo"
  proof (rule tensor_shapeI)
    show "length ?uo = length x" by (rule len)
  next
    fix b assume "b < length x"
    with nth lb le show "length (?uo ! b) = hd lens" by simp
  next
    fix b t assume b: "b < length x" and t: "t < hd lens"
    show "length (?uo ! b ! t) = ?F"
      using nth [OF b] lb [OF b] vec [OF b, of t] t by (cases "t < lens ! b") (auto simp: nth_append)
  qed
  have pad: "\<forall>b < length x. \<forall>t < hd lens. lens ! b \<le> t \<longrightarrow> ?uo ! b ! t = replicate ?F ?p"
  proof (intro allI impI)
    fix b t assume b: "b < length x" and t: "t < hd lens" and p: "lens ! b \<le> t"
    then show "?uo ! b ! t = replicate ?F ?p"
      using nth [OF b] lb [OF b] by (simp add: nth_append)
  qed
  from rn(3) lp have "tensor_shape (num_directions e * num_layers e) (length x) (hidden_size e) rh"
    by simp
  with a(3) sh pad show ?thesis by blast
qed

subsection \<open>The merge of the two directions\<close>

lemma merge_halves:
  assumes "length v = 2 * H"
  shows "length (map2 (+) (take H v) (drop H v)) = H"
    and "j < H \<Longrightarrow> map2 (+) (take H v) (drop H v) ! j = (v ! j + v ! (H + j) :: real)"
  using assms by simp_all

lemma merged_output_shape:
  assumes "tensor_shape B T (2 * H) uo"
  shows "tensor_shape B T H (map (map (\<lambda>v. map2 (+) (take H v) (drop H v))) uo)"
proof (rule tensor_shapeI)
  note d = tensor_shapeD [OF assms]
  show "length (map (map (\<lambda>v. map2 (+) (take H v) (drop H v))) uo) = B"
    using d(1) by simp
  fix b assume b: "b < B"
  then show "length (map (map (\<lambda>v. map2 (+) (take H v) (drop H v))) uo ! b) = T"
    using d(1) d(2) [of b] by simp
  fix t assume t: "t < T"
  from d(3) [OF b t] have "length (uo ! b ! t) = 2 * H" .
  from merge_halves(1) [OF this] b t d(1) d(2) [OF b]
  show "length (map (map (\<lambda>v. map2 (+) (take H v) (drop H v))) uo ! b ! t) = H"
    by simp
qed

lemma merged_hidden_shape:
  assumes "tensor_shape (2 * L) B H uh"
  shows "tensor_shape L B H (map2 (map2 (map2 (+))) (take L uh) (drop L uh))"
proof (rule tensor_shapeI)
  note d = tensor_shapeD [OF assms]
  let ?h = "map2 (map2 (map2 (+))) (take L uh) (drop L uh)"
  show "length ?h = L" using d(1) by simp
  fix l assume l: "l < L"
  then have n: "?h ! l = map2 (map2 (+)) (uh ! l) (uh ! (L + l))"
    using d(1) by simp
  from l have l1: "l < 2 * L" and l2: "L + l < 2 * L" by simp_all
  show "length (?h ! l) = B"
    unfolding n using d(2) [OF l1] d(2) [OF l2] by simp
  fix b assume b: "b < B"
  then have "?h ! l ! b = map2 (+) (uh ! l ! b) (uh ! (L + l) ! b)"
    unfolding n using d(2) [OF l1] d(2) [OF l2] by simp
  then show "length (?h ! l ! b) = H"
    using d(3) [OF l1 b] d(3) [OF l2 b] by simp
qed

lemma encoder_args_ok_unidirectional:
  "encoder_args_ok (e\<lparr>bidirectional := False\<rparr>) x lens = encoder_args_ok e x lens"
  by (simp add: encoder_args_ok_def weight_shape_def ids_in_range_def)

text \<open>
  Claim C5 (amended). Let the encoder be bidirectional, with \<open>L\<close> layers and hidden size
  \<open>H\<close>, and let the arguments be accepted. Then \<^verbatim>\<open>forward\<close> returns, and so does the
  encoder that differs in being unidirectional only. In both cases the output has the shape
  \<open>(batch, T, H)\<close> and the hidden state the shape \<open>(L, batch, H)\<close>, where \<open>T\<close> is the
  longest true length of the batch (the first of the descending lengths), which is at most
  the padded width of the input. The output before the merge has \<open>2 * H\<close> features, and
  every entry of the returned output is the sum of the entry of the forward half and the
  entry of the backward half at the same position.
\<close>

theorem bidirectional_merge_shapes:
  assumes bi: "bidirectional e" and ok: "encoder_args_ok e x seq_lengths"
  shows "\<exists>output hidden_state unmerged unmerged_hidden output1 hidden_state1.
           encoder_forward tk e r x seq_lengths = Inr (output, hidden_state)
         \<and> encoder_unmerged tk e r x seq_lengths = Inr (unmerged, unmerged_hidden)
         \<and> encoder_forward tk (e\<lparr>bidirectional := False\<rparr>) r x seq_lengths
             = Inr (output1, hidden_state1)
         \<and> tensor_shape (length x) (hd seq_lengths) (hidden_size e) output
         \<and> tensor_shape (num_layers e) (length x) (hidden_size e) hidden_state
         \<and> tensor_shape (length x) (hd seq_lengths) (hidden_size e) output1
         \<and> tensor_shape (num_layers e) (length x) (hidden_size e) hidden_state1
         \<and> hd seq_lengths \<le> length (hd x)
         \<and> tensor_shape (length x) (hd seq_lengths) (2 * hidden_size e) unmerged
         \<and> (\<forall>b < length x. \<forall>t < hd seq_lengths. \<forall>j < hidden_size e.
               output ! b ! t ! j
                 = unmerged ! b ! t ! j + unmerged ! b ! t ! (hidden_size e + j))"
proof -
  let ?H = "hidden_size e"
  let ?e1 = "e\<lparr>bidirectional := False\<rparr>"
  from bi have D: "num_directions e = 2" by (simp add: num_directions_def)
  from encoder_unmerged_shape [OF ok, of tk r] D obtain uo uh where u:
    "encoder_unmerged tk e r x seq_lengths = Inr (uo, uh)"
    "tensor_shape (length x) (hd seq_lengths) (2 * ?H) uo"
    "tensor_shape (2 * num_layers e) (length x) ?H uh"
    by auto
  let ?out = "map (map (\<lambda>v. map2 (+) (take ?H v) (drop ?H v))) uo"
  let ?h = "map2 (map2 (map2 (+))) (take (num_layers e) uh) (drop (num_layers e) uh)"
  have f: "encoder_forward tk e r x seq_lengths = Inr (?out, ?h)"
    using bi u(1) by (simp add: encoder_forward_def)
  have ok1: "encoder_args_ok ?e1 x seq_lengths"
    using ok by (simp add: encoder_args_ok_unidirectional)
  have D1: "num_directions ?e1 = 1" by (simp add: num_directions_def)
  from encoder_unmerged_shape [OF ok1, of tk r] D1 obtain o1 h1 where u1:
    "encoder_unmerged tk ?e1 r x seq_lengths = Inr (o1, h1)"
    "tensor_shape (length x) (hd seq_lengths) ?H o1"
    "tensor_shape (num_layers e) (length x) ?H h1"
    by auto
  have f1: "encoder_forward tk ?e1 r x seq_lengths = Inr (o1, h1)"
    using u1(1) by (simp add: encoder_forward_def)
  from ok have la: "list_all2 (\<lambda>row l. 0 < l \<and> l \<le> length row) x seq_lengths" and ne: "x \<noteq> []"
    by (auto simp: encoder_args_ok_def)
  then have w: "hd seq_lengths \<le> length (hd x)"
    by (cases x; cases seq_lengths) auto
  note d = tensor_shapeD [OF u(2)]
  have v: "\<forall>b < length x. \<forall>t < hd seq_lengths. \<forall>j < ?H.
               ?out ! b ! t ! j = uo ! b ! t ! j + uo ! b ! t ! (?H + j)"
  proof (intro allI impI)
    fix b t j assume b: "b < length x" and t: "t < hd seq_lengths" and j: "j < ?H"
    from b t d(1) d(2) [OF b]
    have "?out ! b ! t = map2 (+) (take ?H (uo ! b ! t)) (drop ?H (uo ! b ! t))" by simp
    with merge_halves(2) [OF d(3) [OF b t] j]
    show "?out ! b ! t ! j = uo ! b ! t ! j + uo ! b ! t ! (?H + j)" by simp
  qed
  from f u(1) f1 merged_output_shape [OF u(2)] merged_hidden_shape [OF u(3)] u1(2,3) w u(2) v
  show ?thesis by blast
qed

theorem bidirectional_merge_shapes_witness:
  "bidirectional (ex_encoder 1)
   \<and> encoder_args_ok (ex_encoder 1) [[1, 2, 0], [2, 0, 0]] [2, 1]
   \<and> (\<exists>output hidden_state unmerged unmerged_hidden output1 hidden_state1.
           encoder_forward ex_tokens (ex_encoder 1) 0 [[1, 2, 0], [2, 0, 0]] [2, 1]
             = Inr (output, hidden_state)
         \<and> encoder_unmerged ex_tokens (ex_encoder 1) 0 [[1, 2, 0], [2, 0, 0]] [2, 1]
             = Inr (unmerged, unmerged_hidden)
         \<and> encoder_forward ex_tokens ((ex_encoder 1)\<lparr>bidirectional := False\<rparr>) 0
               [[1, 2, 0], [2, 0, 0]] [2, 1]
             = Inr (output1, hidden_state1)
         \<and> tensor_shape 2 2 2 output
         \<and> tensor_shape 1 2 2 hidden_state
         \<and> tensor_shape 2 2 2 output1
         \<and> tensor_shape 1 2 2 hidden_state1
         \<and> tensor_shape 2 2 4 unmerged
         \<and> (\<forall>b < 2. \<forall>t < 2. \<forall>j < 2.
               output ! b ! t ! j = unmerged ! b ! t ! j + unmerged ! b ! t ! (2 + j)))"
proof -
  have h1: "bidirectional (ex_encoder 1)" by (simp add: ex_encoder_def)
  have h2: "encoder_args_ok (ex_encoder 1) [[1, 2, 0], [2, 0, 0]] [2, 1]" by code_simp
  have c: "length [[1, 2, 0], [2, 0, 0::int]] = 2" "hd [2, 1::nat] = 2"
    "hidden_size (ex_encoder 1) = 2" "num_layers (ex_encoder 1) = 1"
    by (simp_all add: ex_encoder_def)
  from bidirectional_merge_shapes [OF h1 h2, of ex_tokens 0] h1 h2
  show ?thesis unfolding c by (simp only: mult_2 one_add_one numeral_Bit0 [symmetric]) blast
qed

text \<open>A batch whose rows are padded beyond its longest sequence: the input has width 3,
  the output has 2 time steps.\<close>

theorem padded_width_counterexample:
  "encoder_forward ex_tokens (ex_encoder 1) 0 [[1, 2, 0]] [2]
     = Inr ([[[102, 104], [122, 124]]], [[[12, 14]]])
   \<and> length (hd [[[102, 104], [122, 124::real]]]) = 2
   \<and> length (hd [[1, 2, 0::int]]) = 3
   \<and> bidirectional (ex_encoder 1)"
  by code_simp

text \<open>
  Claim C9 (amended). Let the encoder be bidirectional and the arguments accepted. At every
  position \<open>t\<close> of the output of a sequence \<open>b\<close> that lies beyond the true length of the
  sequence, every entry is twice the padding value \<^verbatim>\<open>PAD_TOKEN_ID\<close>: the fill of the
  forward half plus the fill of the backward half. It differs from the padding value itself
  exactly when \<^verbatim>\<open>PAD_TOKEN_ID\<close> is not zero.
\<close>

theorem bidirectional_padding_doubled:
  assumes bi: "bidirectional e" and ok: "encoder_args_ok e x seq_lengths"
    and b: "b < length x" and p: "seq_lengths ! b \<le> t" and t: "t < hd seq_lengths"
  shows "\<exists>output hidden_state.
           encoder_forward tk e r x seq_lengths = Inr (output, hidden_state)
         \<and> length (output ! b ! t) = hidden_size e
         \<and> (\<forall>j < hidden_size e.
               output ! b ! t ! j = 2 * real (PAD_TOKEN_ID tk)
               \<and> (output ! b ! t ! j = real (PAD_TOKEN_ID tk) \<longleftrightarrow> PAD_TOKEN_ID tk = 0))"
proof -
  let ?H = "hidden_size e"
  let ?p = "real (PAD_TOKEN_ID tk)"
  from bi have D: "num_directions e = 2" by (simp add: num_directions_def)
  from encoder_unmerged_shape [OF ok, of tk r] D obtain uo uh where u:
    "encoder_unmerged tk e r x seq_lengths = Inr (uo, uh)"
    "tensor_shape (length x) (hd seq_lengths) (2 * ?H) uo"
    "\<forall>b < length x. \<forall>t < hd seq_lengths. seq_lengths ! b \<le> t \<longrightarrow>
        uo ! b ! t = replicate (2 * ?H) ?p"
    by auto
  let ?out = "map (map (\<lambda>v. map2 (+) (take ?H v) (drop ?H v))) uo"
  let ?h = "map2 (map2 (map2 (+))) (take (num_layers e) uh) (drop (num_layers e) uh)"
  have f: "encoder_forward tk e r x seq_lengths = Inr (?out, ?h)"
    using bi u(1) by (simp add: encoder_forward_def)
  note d = tensor_shapeD [OF u(2)]
  from u(3) b p t have r: "uo ! b ! t = replicate (2 * ?H) ?p" by blast
  from b t d(1) d(2) [OF b]
  have o: "?out ! b ! t = map2 (+) (take ?H (uo ! b ! t)) (drop ?H (uo ! b ! t))" by simp
  have l: "length (?out ! b ! t) = ?H"
    unfolding o using merge_halves(1) [OF d(3) [OF b t]] .
  have v: "\<forall>j < ?H. ?out ! b ! t ! j = 2 * ?p \<and> (?out ! b ! t ! j = ?p \<longleftrightarrow> PAD_TOKEN_ID tk = 0)"
  proof (intro allI impI)
    fix j assume j: "j < ?H"
    from merge_halves(2) [OF d(3) [OF b t] j] o r j
    have "?out ! b ! t ! j = 2 * ?p" by simp
    then show "?out ! b ! t ! j = 2 * ?p \<and> (?out ! b ! t ! j = ?p \<longleftrightarrow> PAD_TOKEN_ID tk = 0)"
      by simp
  qed
  from f l v show ?thesis by blast
qed

theorem bidirectional_padding_doubled_witness:
  "bidirectional (ex_encoder 1)
   \<and> encoder_args_ok (ex_encoder 1) [[1, 2, 0], [2, 0, 0]] [2, 1]
   \<and> (1::nat) < length [[1, 2, 0], [2, 0, 0::int]]
   \<and> [2, 1] ! 1 \<le> (1::nat)
   \<and> (1::nat) < hd [2, 1]
   \<and> (\<exists>output hidden_state.
           encoder_forward (ex_tokens\<lparr>PAD_TOKEN_ID := 2\<rparr>) (ex_encoder 1) 0
               [[1, 2, 0], [2, 0, 0]] [2, 1]
             = Inr (output, hidden_state)
         \<and> length (output ! 1 ! 1) = hidden_size (ex_encoder 1)
         \<and> (\<forall>j < hidden_size (ex_encoder 1).
               output ! 1 ! 1 ! j = 2 * real (PAD_TOKEN_ID (ex_tokens\<lparr>PAD_TOKEN_ID := 2\<rparr>))
               \<and> (output ! 1 ! 1 ! j = real (PAD_TOKEN_ID (ex_tokens\<lparr>PAD_TOKEN_ID := 2\<rparr>))
                    \<longleftrightarrow> PAD_TOKEN_ID (ex_tokens\<lparr>PAD_TOKEN_ID := 2\<rparr>) = 0)))"
proof -
  have h1: "bidirectional (ex_encoder 1)" by (simp add: ex_encoder_def)
  have h2: "encoder_args_ok (ex_encoder 1) [[1, 2, 0], [2, 0, 0]] [2, 1]" by code_simp
  have h3: "(1::nat) < length [[1, 2, 0], [2, 0, 0::int]]" by simp
  have h4: "[2, 1] ! 1 \<le> (1::nat)" by simp
  have h5: "(1::nat) < hd [2, 1]" by simp
  from bidirectional_padding_doubled [OF h1 h2 h3 h4 h5, of "ex_tokens\<lparr>PAD_TOKEN_ID := 2\<rparr>" 0]
    h1 h2 h3 h4 h5
  show ?thesis by blast
qed

text \<open>With the padding id 0 the entries beyond the true length are the padding value
  itself.\<close>

theorem zero_padding_counterexample:
  "encoder_forward ex_tokens (ex_encoder 1) 0 [[1, 2, 0], [2, 0, 0]] [2, 1]
     = Inr ([[[102, 104], [122, 124]], [[102, 104], [0, 0]]], [[[12, 14], [12, 14]]])
   \<and> [[[102, 104], [122, 124]], [[102, 104], [0, 0]]] ! 1 ! 1
       = replicate 2 (real (PAD_TOKEN_ID ex_tokens))
   \<and> [2, 1] ! 1 \<le> (1::nat) \<and> (1::nat) < hd [2, 1]
   \<and> bidirectional (ex_encoder 1)"
  by code_simp

text \<open>
  Claim C2. A bidirectional encoder with two layers, on a batch of two sequences. The
  recurrent stack returns the final states in the order layer 0 forward, layer 0 backward,
  layer 1 forward, layer 1 backward. The first state \<^verbatim>\<open>forward\<close> returns is
  \<open>[102, 104]\<close> for the first sequence: the sum of the forward states of layer 0 and of
  layer 1. The sum of the forward and the backward state of layer 0 is \<open>[12, 14]\<close>.
\<close>

theorem bidirectional_hidden_mixes_layers:
  "encoder_forward ex_tokens (ex_encoder 2) 0 [[1, 2, 0], [2, 0, 0]] [2, 1]
     = Inr ([[[102, 104], [122, 124]], [[102, 104], [0, 0]]],
            [[[102, 104], [102, 104]], [[122, 124], [122, 124]]])
   \<and> map (\<lambda>j. rnn_final (ex_encoder 2) None [[[1, 2], [3, 4]], [[3, 4]]] None 0 0 0 j
              + rnn_final (ex_encoder 2) None [[[1, 2], [3, 4]], [[3, 4]]] None 0 1 0 j) [0..<2]
       = [12, 14]
   \<and> map (\<lambda>j. rnn_final (ex_encoder 2) None [[[1, 2], [3, 4]], [[3, 4]]] None 0 0 0 j
              + rnn_final (ex_encoder 2) None [[[1, 2], [3, 4]], [[3, 4]]] None 1 0 0 j) [0..<2]
       = [102, 104]
   \<and> bidirectional (ex_encoder 2) \<and> num_layers (ex_encoder 2) = 2"
  by code_simp

section \<open>Pretrained embedding weights\<close>

text \<open>
  Claim C10. Let \<open>W\<close> have shape \<open>(vocab_size, embedding_dim)\<close> and let \<open>m\<close> be an
  encoder or a decoder. After \<^verbatim>\<open>init_embedding_weight(W)\<close> the embedding lookup of every
  token id \<open>i\<close> of the vocabulary is the row \<open>W[i]\<close>; this includes \<open>PAD_TOKEN_ID\<close>, whose
  row is the one supplied in \<open>W\<close>, not a row of zeros; and the whole table is \<open>W\<close> and
  does not require a gradient.
\<close>

theorem init_embedding_weight_lookup:
  assumes "length W = vocab_size m" and "\<forall>row \<in> set W. length row = embedding_dim m"
    and "i < vocab_size m"
  shows "embedding_lookup (init_embedding_weight m W) [[int i]] = Inr [[W ! i]]
         \<and> embedding_weight (init_embedding_weight m W) = W
         \<and> \<not> embedding_requires_grad (init_embedding_weight m W)"
  using assms by (simp add: embedding_lookup_def init_embedding_weight_def)

theorem init_embedding_weight_lookup_witness:
  "length [[5, 6], [7, 8], [9, 10 :: real]] = vocab_size (ex_encoder 1)
   \<and> map length [[5, 6], [7, 8], [9, 10 :: real]] = replicate 3 (embedding_dim (ex_encoder 1))
   \<and> PAD_TOKEN_ID ex_tokens < vocab_size (ex_encoder 1)
   \<and> embedding_lookup (init_embedding_weight (ex_encoder 1) [[5, 6], [7, 8], [9, 10]])
         [[int (PAD_TOKEN_ID ex_tokens)]] = Inr [[[5, 6]]]
   \<and> embedding_lookup (init_embedding_weight (ex_decoder True) [[5, 6], [7, 8], [9, 10]])
         [[int (PAD_TOKEN_ID ex_tokens)]] = Inr [[[5, 6]]]
   \<and> \<not> embedding_requires_grad (init_embedding_weight (ex_encoder 1) [[5, 6], [7, 8], [9, 10]])
   \<and> \<not> embedding_requires_grad (init_embedding_weight (ex_decoder True) [[5, 6], [7, 8], [9, 10]])"
  using init_embedding_weight_lookup
          [of "[[5, 6], [7, 8], [9, 10]]" "ex_encoder 1" "PAD_TOKEN_ID ex_tokens"]
        init_embedding_weight_lookup
          [of "[[5, 6], [7, 8], [9, 10]]" "ex_decoder True" "PAD_TOKEN_ID ex_tokens"]
  by (simp add: ex_encoder_def ex_decoder_def ex_tokens_def numeral_3_eq_3)

end
